theory Spec2Isabelle
  imports Main "HOL-Library.Sublist" "HOL-Library.Multiset"
begin

section \<open>Keybind sequence matcher (src/src/lib/keybinds.ts)\<close>

subsection \<open>Types\<close>

text \<open>The union type \<open>KeybindAction\<close>: one constructor per string literal of the source.\<close>

datatype KeybindAction =
    openHyperTabs
  | harpoonAdd
  | harpoonRemove
  | harpoonList
  | harpoon1
  | harpoon2
  | harpoon3
  | harpoon4
  | harpoon5
  | workspaceNext
  | workspacePrev
  | workspaceList
  | lastTab
  | closeTab

text \<open>The interface \<open>KeybindDef\<close>.\<close>

record KeybindDef =
  sequence :: "string list"
  description :: string
  action :: KeybindAction

text \<open>
  The part of a DOM \<open>KeyboardEvent\<close> that the manager reads: \<open>event.code\<close>,
  \<open>event.key\<close>, and of \<open>event.target\<close> its \<open>tagName\<close> and \<open>isContentEditable\<close>.
  \<open>timeStamp\<close> is the time (in ms) at which the handler runs; \<open>setTimeout\<close> counts
  from it. Strings are ASCII strings.
\<close>

record KeyboardEvent =
  code :: string
  key :: string
  tagName :: string
  isContentEditable :: bool
  timeStamp :: nat

text \<open>
  The private fields of the class \<open>KeybindManager\<close>. \<open>sequenceTimeout\<close> is the pending
  timer: \<open>None\<close> for \<open>null\<close>, \<open>Some d\<close> for a timer that will fire at time \<open>d\<close>.
  The two callbacks are not state: what they are called with is recorded as effects.
\<close>

record KeybindManager =
  currentSequence :: "string list"
  sequenceTimeout :: "nat option"
  keybinds :: "KeybindDef list"
  enabled :: bool

text \<open>
  What a call of \<open>handleKeyDown\<close> does besides updating the manager and returning a
  boolean: the calls on the event and the two callbacks, in program order.
\<close>

datatype effect =
    PreventDefault
  | StopPropagation
  | OnAction KeybindAction
  | OnSequenceUpdate "string list"

text \<open>The result of \<open>findMatch\<close>: \<open>'exact' | 'partial' | 'none'\<close>.\<close>

datatype match_result = exact | partial | none

subsection \<open>Strings\<close>

definition isUpperChar :: "char \<Rightarrow> bool" where
  "isUpperChar c = (65 \<le> (of_char c :: nat) \<and> (of_char c :: nat) \<le> 90)"

definition isLowerChar :: "char \<Rightarrow> bool" where
  "isLowerChar c = (97 \<le> (of_char c :: nat) \<and> (of_char c :: nat) \<le> 122)"

definition isDigitChar :: "char \<Rightarrow> bool" where
  "isDigitChar c = (48 \<le> (of_char c :: nat) \<and> (of_char c :: nat) \<le> 57)"

text \<open>The character class \<open>[a-zA-Z0-9]\<close>.\<close>

definition isAlnumChar :: "char \<Rightarrow> bool" where
  "isAlnumChar c = (isLowerChar c \<or> isUpperChar c \<or> isDigitChar c)"

definition lowerChar :: "char \<Rightarrow> char" where
  "lowerChar c = (if isUpperChar c then char_of ((of_char c :: nat) + 32) else c)"

text \<open>\<open>String.prototype.toLowerCase\<close> on ASCII strings.\<close>

definition toLowerCase :: "string \<Rightarrow> string" where
  "toLowerCase s = map lowerChar s"

subsection \<open>The manager\<close>

text \<open>\<open>SEQUENCE_TIMEOUT\<close>, in ms.\<close>

definition SEQUENCE_TIMEOUT :: nat where
  "SEQUENCE_TIMEOUT = 1000"

text \<open>The constructor: empty sequence, no timer, enabled.\<close>

definition newKeybindManager :: "KeybindDef list \<Rightarrow> KeybindManager" where
  "newKeybindManager kbs =
     \<lparr>currentSequence = [], sequenceTimeout = None, keybinds = kbs, enabled = True\<rparr>"

text \<open>\<open>isInputElement(event.target)\<close>.\<close>

definition isInputElement :: "KeyboardEvent \<Rightarrow> bool" where
  "isInputElement ev =
     (let tag = toLowerCase (tagName ev);
          isInput = (tag = ''input'' \<or> tag = ''textarea'' \<or> tag = ''select'');
          isEditable = isContentEditable ev
      in isInput \<or> isEditable)"

text \<open>
  \<open>getKeyName\<close>: \<open>None\<close> is \<open>null\<close>. The test \<open>/[a-zA-Z0-9]/.test(event.key)\<close> asks for
  some character of the class in the string, which has length 1 here.
\<close>

definition getKeyName :: "KeyboardEvent \<Rightarrow> string option" where
  "getKeyName ev =
     (if code ev = ''Space'' then Some ''Space''
      else if key ev = ''Escape'' then Some ''Escape''
      else if length (key ev) = 1 \<and> list_ex isAlnumChar (key ev)
        then Some (toLowerCase (key ev))
      else None)"

text \<open>
  \<open>sequencesMatch(a, b)\<close>: after the length test, \<open>a.every\<close> compares position by
  position, so it runs over the pairs of \<open>zip a b\<close>.
\<close>

definition sequencesMatch :: "string list \<Rightarrow> string list \<Rightarrow> bool" where
  "sequencesMatch a b =
     (if length a \<noteq> length b then False
      else list_all (\<lambda>(k, k'). toLowerCase k = toLowerCase k') (zip a b))"

text \<open>
  \<open>isPartialMatch(keybind, current)\<close>: \<open>current\<close> is strictly shorter, so every
  \<open>keybind[i]\<close> read by \<open>current.every\<close> exists.
\<close>

definition isPartialMatch :: "string list \<Rightarrow> string list \<Rightarrow> bool" where
  "isPartialMatch keybind current =
     (if length current \<ge> length keybind then False
      else list_all (\<lambda>(k, k'). toLowerCase k = toLowerCase k') (zip current keybind))"

text \<open>
  The loop of \<open>findMatch\<close> over the remaining keybinds, with the local \<open>hasPartial\<close>:
  it returns \<open>exact\<close> at the first exact match, before looking at the rest.
\<close>

fun findMatch_loop :: "KeybindDef list \<Rightarrow> string list \<Rightarrow> bool \<Rightarrow> match_result" where
  "findMatch_loop [] current hasPartial = (if hasPartial then partial else none)"
| "findMatch_loop (keybind # rest) current hasPartial =
     (if sequencesMatch (sequence keybind) current then exact
      else findMatch_loop rest current
             (if isPartialMatch (sequence keybind) current then True else hasPartial))"

definition findMatch :: "KeybindManager \<Rightarrow> match_result" where
  "findMatch m = findMatch_loop (keybinds m) (currentSequence m) False"

text \<open>\<open>resetSequence\<close>: clears the sequence and the timer, and notifies the UI.\<close>

definition resetSequence :: "KeybindManager \<Rightarrow> effect list \<times> KeybindManager" where
  "resetSequence m =
     ([OnSequenceUpdate []], m\<lparr>currentSequence := [], sequenceTimeout := None\<rparr>)"

text \<open>\<open>resetTimeout\<close>: clears a pending timer and sets a new one.\<close>

definition resetTimeout :: "nat \<Rightarrow> KeybindManager \<Rightarrow> KeybindManager" where
  "resetTimeout now m = m\<lparr>sequenceTimeout := Some (now + SEQUENCE_TIMEOUT)\<rparr>"

text \<open>
  \<open>handleKeyDown\<close>: the returned boolean, the effects, and the manager afterwards.
  The branch \<open>exact\<close> with no keybind found falls through to the final
  \<open>return false\<close> of the source.
\<close>

definition handleKeyDown ::
  "KeyboardEvent \<Rightarrow> KeybindManager \<Rightarrow> bool \<times> effect list \<times> KeybindManager" where
  "handleKeyDown ev m =
     (if \<not> enabled m then (False, [], m)
      else if isInputElement ev then (False, [], m)
      else
        (case getKeyName ev of
           None \<Rightarrow> (False, [], m)
         | Some k \<Rightarrow>
             (if length (currentSequence m) = 0 \<and> k \<noteq> ''Space'' then (False, [], m)
              else
                (let m1 = resetTimeout (timeStamp ev)
                            (m\<lparr>currentSequence := currentSequence m @ [k]\<rparr>);
                     fx1 = [OnSequenceUpdate (currentSequence m1)]
                 in (case findMatch m1 of
                       exact \<Rightarrow>
                         (case find (\<lambda>kb. sequencesMatch (sequence kb) (currentSequence m1))
                                 (keybinds m1) of
                            Some keybind \<Rightarrow>
                              (let (fx2, m2) = resetSequence m1
                               in (True,
                                   fx1 @ [PreventDefault, StopPropagation, OnAction (action keybind)]
                                       @ fx2,
                                   m2))
                          | None \<Rightarrow> (False, fx1, m1))
                     | partial \<Rightarrow> (True, fx1 @ [PreventDefault, StopPropagation], m1)
                     | none \<Rightarrow>
                         (let (fx2, m2) = resetSequence m1
                          in (False, fx1 @ fx2, m2)))))))"

text \<open>The timer callback set by \<open>resetTimeout\<close>: it runs \<open>resetSequence\<close>.\<close>

definition onSequenceTimeout :: "KeybindManager \<Rightarrow> effect list \<times> KeybindManager" where
  "onSequenceTimeout m = resetSequence m"

text \<open>\<open>setEnabled\<close> and \<open>updateKeybinds\<close>.\<close>

definition setEnabled :: "bool \<Rightarrow> KeybindManager \<Rightarrow> effect list \<times> KeybindManager" where
  "setEnabled e m =
     (let m1 = m\<lparr>enabled := e\<rparr>
      in if \<not> e then resetSequence m1 else ([], m1))"

definition updateKeybinds :: "KeybindDef list \<Rightarrow> KeybindManager \<Rightarrow> KeybindManager" where
  "updateKeybinds kbs m = m\<lparr>keybinds := kbs\<rparr>"

text \<open>The actions passed to \<open>onAction\<close> among a list of effects, in order.\<close>

fun actions_of :: "effect list \<Rightarrow> KeybindAction list" where
  "actions_of [] = []"
| "actions_of (OnAction a # fx) = a # actions_of fx"
| "actions_of (_ # fx) = actions_of fx"

text \<open>Whether the default handling of the event was suppressed.\<close>

definition suppressed :: "effect list \<Rightarrow> bool" where
  "suppressed fx = (PreventDefault \<in> set fx \<or> StopPropagation \<in> set fx)"

text \<open>
  Feeding a list of keydown events to the manager one after the other, with no timer
  firing in between: the returned booleans, all effects, and the final manager.
\<close>

fun feed :: "KeyboardEvent list \<Rightarrow> KeybindManager \<Rightarrow> bool list \<times> effect list \<times> KeybindManager" where
  "feed [] m = ([], [], m)"
| "feed (ev # evs) m =
     (case handleKeyDown ev m of (c, fx, m1) \<Rightarrow>
        (case feed evs m1 of (cs, fxs, m2) \<Rightarrow> (c # cs, fx @ fxs, m2)))"


subsection \<open>The default table\<close>

text \<open>\<open>DEFAULT_KEYBINDS\<close>, entry by entry.\<close>

definition DEFAULT_KEYBINDS :: "KeybindDef list" where
  "DEFAULT_KEYBINDS =
     [\<lparr>sequence = [''Space'', ''Space''], description = ''Open HyperTabs'', action = openHyperTabs\<rparr>,
      \<lparr>sequence = [''Space'', ''h'', ''a''], description = ''Add tab to Harpoon'', action = harpoonAdd\<rparr>,
      \<lparr>sequence = [''Space'', ''h'', ''r''], description = ''Remove tab from Harpoon'', action = harpoonRemove\<rparr>,
      \<lparr>sequence = [''Space'', ''h'', ''o''], description = ''Open Harpoon list'', action = harpoonList\<rparr>,
      \<lparr>sequence = [''Space'', ''1''], description = ''Jump to Harpoon slot 1'', action = harpoon1\<rparr>,
      \<lparr>sequence = [''Space'', ''2''], description = ''Jump to Harpoon slot 2'', action = harpoon2\<rparr>,
      \<lparr>sequence = [''Space'', ''3''], description = ''Jump to Harpoon slot 3'', action = harpoon3\<rparr>,
      \<lparr>sequence = [''Space'', ''4''], description = ''Jump to Harpoon slot 4'', action = harpoon4\<rparr>,
      \<lparr>sequence = [''Space'', ''5''], description = ''Jump to Harpoon slot 5'', action = harpoon5\<rparr>,
      \<lparr>sequence = [''Space'', ''w'', ''n''], description = ''Next workspace'', action = workspaceNext\<rparr>,
      \<lparr>sequence = [''Space'', ''w'', ''p''], description = ''Previous workspace'', action = workspacePrev\<rparr>,
      \<lparr>sequence = [''Space'', ''w'', ''o''], description = ''Open workspace list'', action = workspaceList\<rparr>,
      \<lparr>sequence = [''Space'', ''l''], description = ''Switch to last tab'', action = lastTab\<rparr>,
      \<lparr>sequence = [''Space'', ''x''], description = ''Close current tab'', action = closeTab\<rparr>]"

subsection \<open>Conditions on a binding table\<close>


definition ci_strict_prefix :: "string list \<Rightarrow> string list \<Rightarrow> bool" where
  "ci_strict_prefix p s = strict_prefix (map toLowerCase p) (map toLowerCase s)"


text \<open>
  \<open>strict_prefix_free\<close>: the weaker condition that no binding's sequence is a strict
  prefix of another binding's sequence; equal sequences are allowed.
\<close>

fun strict_prefix_free :: "KeybindDef list \<Rightarrow> bool" where
  "strict_prefix_free [] = True"
| "strict_prefix_free (kb # kbs) =
     (list_all (\<lambda>kb'. \<not> ci_strict_prefix (sequence kb) (sequence kb') \<and>
                       \<not> ci_strict_prefix (sequence kb') (sequence kb)) kbs
      \<and> strict_prefix_free kbs)"

text \<open>A keydown event on the page body, for a key given by its \<open>code\<close> and \<open>key\<close>.\<close>

definition keydown :: "string \<Rightarrow> string \<Rightarrow> KeyboardEvent" where
  "keydown c k =
     \<lparr>code = c, key = k, tagName = ''BODY'', isContentEditable = False, timeStamp = 0\<rparr>"


section \<open>Harpoon slot registry (src/unnamed/part_003, with the tabs wrapper src/unnamed/part_002 and src/src/lib/storage.ts)\<close>

subsection \<open>Types\<close>

text \<open>
  The fields of \<open>chrome.tabs.Tab\<close> that the code reads. \<open>id\<close>, \<open>url\<close>, \<open>title\<close> and
  \<open>favIconUrl\<close> are optional in that type (\<open>None\<close> is \<open>undefined\<close>); \<open>windowId\<close> is not.
  Numbers are integers.
\<close>

record Tab =
  tab_id :: "int option"
  tab_url :: "string option"
  tab_title :: "string option"
  tab_favIconUrl :: "string option"
  tab_windowId :: int

text \<open>The interface \<open>HarpoonSlot\<close>; its field \<open>id\<close> is \<open>slot_id\<close> here.\<close>

record HarpoonSlot =
  slot_id :: int
  tabId :: "int option"
  url :: string
  title :: string
  favicon :: "string option"
  windowId :: "int option"

text \<open>
  The interface \<open>HarpoonState\<close>. An element of \<open>slots\<close> is \<open>None\<close> for \<open>null\<close>; a hole
  of a JavaScript array is stored as \<open>null\<close> too.
\<close>

record HarpoonState =
  slots :: "HarpoonSlot option list"
  maxSlots :: int

text \<open>The calls that change something in the browser, as they are made.\<close>

datatype browser_call =
    TabsUpdateActive "int option"
  | WindowsUpdateFocused int
  | TabsCreate string
  | StorageSetHarpoon HarpoonState

text \<open>
  The browser as the module sees it: the open tabs of all windows in the order in which
  \<open>chrome.tabs.query\<close> lists them, the active tab of the current window, the id and
  window that \<open>chrome.tabs.create\<close> will give to the next tab, the value stored under the
  key \<open>harpoon\<close> (\<open>None\<close> when the key is absent), the setting
  \<open>settings.harpoonReopenClosed\<close>, and the calls made so far.
\<close>

record Browser =
  tabs :: "Tab list"
  activeTab :: "Tab option"
  nextTabId :: int
  currentWindowId :: int
  stored_harpoon :: "HarpoonState option"
  harpoonReopenClosed :: bool
  calls :: "browser_call list"

text \<open>
  A rejected promise carries an error. The only exception that the modelled code can
  raise itself is the \<open>RangeError\<close> of \<open>Array(n)\<close> for an \<open>n\<close> that is no array length.
\<close>

datatype js_error = RangeError

subsection \<open>JavaScript values\<close>

text \<open>Truthiness of an optional number and of an optional string.\<close>

definition truthy_num :: "int option \<Rightarrow> bool" where
  "truthy_num x = (case x of None \<Rightarrow> False | Some n \<Rightarrow> n \<noteq> 0)"

definition truthy_str :: "string option \<Rightarrow> bool" where
  "truthy_str x = (case x of None \<Rightarrow> False | Some s \<Rightarrow> s \<noteq> [])"

definition startsWith :: "string \<Rightarrow> string \<Rightarrow> bool" where
  "startsWith s p = (take (length p) s = p)"

text \<open>
  A JavaScript array of slots inside an updater: its elements, and the properties that
  assignments at negative indices create. Only the elements are written to storage.
\<close>

type_synonym js_slots = "HarpoonSlot option list \<times> (int \<rightharpoonup> HarpoonSlot option)"

text \<open>\<open>[...state.slots]\<close>: a copy of the elements, with no other property.\<close>

definition js_spread :: "HarpoonSlot option list \<Rightarrow> js_slots" where
  "js_spread xs = (xs, Map.empty)"

text \<open>
  \<open>a[i]\<close>: an index past the end, a hole, \<open>null\<close> and a missing property all read as
  a value that \<open>!x\<close> and \<open>x ?? null\<close> treat alike, \<open>None\<close>.
\<close>

definition js_get :: "js_slots \<Rightarrow> int \<Rightarrow> HarpoonSlot option" where
  "js_get a i =
     (if 0 \<le> i then (if nat i < length (fst a) then fst a ! nat i else None)
      else (case snd a i of None \<Rightarrow> None | Some v \<Rightarrow> v))"

text \<open>
  \<open>a[i] = v\<close>: inside the array it replaces the element; past the end it extends the
  array, leaving holes; at a negative index it sets a property and no element.
\<close>

definition js_set :: "js_slots \<Rightarrow> int \<Rightarrow> HarpoonSlot option \<Rightarrow> js_slots" where
  "js_set a i v =
     (if 0 \<le> i then
        (if nat i < length (fst a) then ((fst a)[nat i := v], snd a)
         else (fst a @ replicate (nat i - length (fst a)) None @ [v], snd a))
      else (fst a, (snd a)(i \<mapsto> v)))"

text \<open>The start position that \<open>Array.prototype.splice\<close> computes from its first argument.\<close>

definition splice_start :: "nat \<Rightarrow> int \<Rightarrow> nat" where
  "splice_start len i = (if i < 0 then nat (max (int len + i) 0) else min (nat i) len)"

text \<open>\<open>a.splice(i, 1)\<close>: the removed elements and the array afterwards.\<close>

definition splice_remove1 :: "'a list \<Rightarrow> int \<Rightarrow> 'a list \<times> 'a list" where
  "splice_remove1 xs i =
     (let start = splice_start (length xs) i
      in (take 1 (drop start xs), take start xs @ drop (start + 1) xs))"

text \<open>\<open>a.splice(i, 0, v)\<close>: the array afterwards.\<close>

definition splice_insert :: "'a list \<Rightarrow> int \<Rightarrow> 'a \<Rightarrow> 'a list" where
  "splice_insert xs i v =
     (let start = splice_start (length xs) i
      in take start xs @ [v] @ drop start xs)"

subsection \<open>storage.ts\<close>

definition DEFAULT_HARPOON_STATE :: HarpoonState where
  "DEFAULT_HARPOON_STATE = \<lparr>slots = [None, None, None, None, None], maxSlots = 5\<rparr>"

text \<open>\<open>get('harpoon')\<close>: the stored value, or the default when the key is absent.\<close>

definition get_harpoon :: "Browser \<Rightarrow> HarpoonState" where
  "get_harpoon b = (case stored_harpoon b of None \<Rightarrow> DEFAULT_HARPOON_STATE | Some v \<Rightarrow> v)"

text \<open>\<open>set('harpoon', value)\<close>.\<close>

definition set_harpoon :: "HarpoonState \<Rightarrow> Browser \<Rightarrow> Browser" where
  "set_harpoon v b = b\<lparr>stored_harpoon := Some v, calls := calls b @ [StorageSetHarpoon v]\<rparr>"

text \<open>\<open>update('harpoon', updater)\<close>: read, apply, write back.\<close>

definition update_harpoon :: "(HarpoonState \<Rightarrow> HarpoonState) \<Rightarrow> Browser \<Rightarrow> Browser" where
  "update_harpoon updater b =
     (let current = get_harpoon b;
          updated = updater current
      in set_harpoon updated b)"

subsection \<open>The tabs wrapper\<close>

text \<open>\<open>getActiveTab\<close>: the first tab of the query for the active tab of the current window.\<close>

definition getActiveTab :: "Browser \<Rightarrow> Tab option" where
  "getActiveTab b = activeTab b"

text \<open>
  \<open>getTabById\<close>: \<open>chrome.tabs.get\<close> gives the open tab with this id and throws when there
  is none, which the wrapper turns into \<open>undefined\<close>.
\<close>

definition getTabById :: "int option \<Rightarrow> Browser \<Rightarrow> Tab option" where
  "getTabById i b =
     (case i of None \<Rightarrow> None | Some n \<Rightarrow> find (\<lambda>t. tab_id t = Some n) (tabs b))"

text \<open>
  \<open>findTabByUrl\<close>: the first tab of \<open>chrome.tabs.query({ url })\<close>, taken here as the
  open tabs whose URL equals the given one.
\<close>

definition findTabByUrl :: "string \<Rightarrow> Browser \<Rightarrow> Tab option" where
  "findTabByUrl u b = find (\<lambda>t. tab_url t = Some u) (tabs b)"

text \<open>
  \<open>switchToTab(tabId, windowId?)\<close>: activates the tab, then focuses the given window, or
  the tab's own window when none is given.
\<close>

definition switchToTab :: "int option \<Rightarrow> int option \<Rightarrow> Browser \<Rightarrow> Browser" where
  "switchToTab tid wid b =
     (let b1 = b\<lparr>calls := calls b @ [TabsUpdateActive tid]\<rparr>
      in if truthy_num wid then
           (case wid of
              Some w \<Rightarrow> b1\<lparr>calls := calls b1 @ [WindowsUpdateFocused w]\<rparr>
            | None \<Rightarrow> b1)
         else
           (case getTabById tid b1 of
              Some tab \<Rightarrow>
                (if tab_windowId tab \<noteq> 0
                 then b1\<lparr>calls := calls b1 @ [WindowsUpdateFocused (tab_windowId tab)]\<rparr>
                 else b1)
            | None \<Rightarrow> b1))"

text \<open>\<open>createTab(url)\<close>: the browser opens a tab at the URL and returns it.\<close>

definition createTab :: "string \<Rightarrow> Browser \<Rightarrow> Tab \<times> Browser" where
  "createTab u b =
     (let newTab = \<lparr>tab_id = Some (nextTabId b), tab_url = Some u, tab_title = None,
                     tab_favIconUrl = None, tab_windowId = currentWindowId b\<rparr>
      in (newTab,
          b\<lparr>tabs := tabs b @ [newTab], nextTabId := nextTabId b + 1,
            calls := calls b @ [TabsCreate u]\<rparr>))"

subsection \<open>The harpoon module\<close>

text \<open>
  An operation of type \<open>Promise<void>\<close> gives \<open>Inr ()\<close> when its promise resolves and
  \<open>Inl e\<close> when it rejects with \<open>e\<close>, together with the browser afterwards. Calls of
  \<open>console.log\<close> and \<open>console.error\<close> are left out.
\<close>

type_synonym 'a promise = "(js_error + 'a) \<times> Browser"

definition getHarpoonState :: "Browser \<Rightarrow> HarpoonState" where
  "getHarpoonState b = get_harpoon b"

definition setMaxSlots_updater :: "int \<Rightarrow> HarpoonState \<Rightarrow> HarpoonState" where
  "setMaxSlots_updater clampedMax state =
     state\<lparr>maxSlots := clampedMax, slots := take (nat clampedMax) (slots state)\<rparr>"

definition setMaxSlots :: "int \<Rightarrow> Browser \<Rightarrow> unit promise" where
  "setMaxSlots n b =
     (let clampedMax = max 1 (min 10 n)
      in (Inr (), update_harpoon (setMaxSlots_updater clampedMax) b))"

text \<open>
  The updater of \<open>markToSlot\<close>. The \<open>while\<close> loop pushes \<open>null\<close> until the length
  reaches \<open>slotId\<close>: \<open>slotId - length\<close> times when that is positive, never otherwise.
\<close>

definition markToSlot_updater :: "int \<Rightarrow> HarpoonSlot \<Rightarrow> HarpoonState \<Rightarrow> HarpoonState" where
  "markToSlot_updater slotId slot state =
     (let newSlots = js_spread (slots state);
          padded = (fst newSlots @ replicate (nat (slotId - int (length (fst newSlots)))) None,
                    snd newSlots);
          written = js_set padded (slotId - 1) (Some slot)
      in state\<lparr>slots := fst written\<rparr>)"

text \<open>
  \<open>markToSlot(slotId, tabId?)\<close>: \<open>None\<close> is the result \<open>null\<close>. The three tests of
  \<open>!tab || !tab.id || !tab.url\<close> are the first three case distinctions.
\<close>

definition markToSlot :: "int \<Rightarrow> int option \<Rightarrow> Browser \<Rightarrow> HarpoonSlot option \<times> Browser" where
  "markToSlot slotId tabIdArg b =
     (let tab = (case tabIdArg of Some i \<Rightarrow> getTabById (Some i) b | None \<Rightarrow> getActiveTab b)
      in case tab of
           None \<Rightarrow> (None, b)
         | Some t \<Rightarrow>
             (if \<not> truthy_num (tab_id t) then (None, b)
              else
                (case tab_url t of
                   None \<Rightarrow> (None, b)
                 | Some u \<Rightarrow>
                     (if u = [] then (None, b)
                      else if startsWith u ''chrome://'' \<or> startsWith u ''chrome-extension://''
                        then (None, b)
                      else
                        (let slot = \<lparr>slot_id = slotId,
                                      tabId = tab_id t,
                                      url = u,
                                      title = (if truthy_str (tab_title t)
                                               then (case tab_title t of Some x \<Rightarrow> x | None \<Rightarrow> ''Untitled'')
                                               else ''Untitled''),
                                      favicon = tab_favIconUrl t,
                                      windowId = Some (tab_windowId t)\<rparr>
                         in (Some slot, update_harpoon (markToSlot_updater slotId slot) b))))))"

text \<open>\<open>markToNextAvailable\<close>: the loop looks for the first empty slot below \<open>maxSlots\<close>.\<close>

function markToNextAvailable_loop :: "HarpoonState \<Rightarrow> int \<Rightarrow> Browser \<Rightarrow> int option \<times> Browser" where
  "markToNextAvailable_loop state i b =
     (if i < maxSlots state then
        (if js_get (js_spread (slots state)) i = None
         then (Some (i + 1), snd (markToSlot (i + 1) None b))
         else markToNextAvailable_loop state (i + 1) b)
      else (None, b))"
  by pat_completeness auto
termination
  by (relation "measure (\<lambda>(state, i, b). nat (maxSlots state - i))") auto

declare markToNextAvailable_loop.simps [simp del]

definition markToNextAvailable :: "Browser \<Rightarrow> int option \<times> Browser" where
  "markToNextAvailable b = markToNextAvailable_loop (getHarpoonState b) 0 b"

definition removeFromSlot_updater :: "int \<Rightarrow> HarpoonState \<Rightarrow> HarpoonState" where
  "removeFromSlot_updater slotId state =
     (let newSlots = js_spread (slots state);
          newSlots1 = (if slotId > 0 \<and> slotId \<le> int (length (fst newSlots))
                       then js_set newSlots (slotId - 1) None else newSlots)
      in state\<lparr>slots := fst newSlots1\<rparr>)"

definition removeFromSlot :: "int \<Rightarrow> Browser \<Rightarrow> unit promise" where
  "removeFromSlot slotId b = (Inr (), update_harpoon (removeFromSlot_updater slotId) b)"

definition removeByUrl_updater :: "string \<Rightarrow> HarpoonState \<Rightarrow> HarpoonState" where
  "removeByUrl_updater u state =
     state\<lparr>slots := map (\<lambda>slot. case slot of
                                   None \<Rightarrow> slot
                                 | Some s \<Rightarrow> if url s = u then None else slot)
                         (slots state)\<rparr>"

definition removeByUrl :: "string \<Rightarrow> Browser \<Rightarrow> unit promise" where
  "removeByUrl u b = (Inr (), update_harpoon (removeByUrl_updater u) b)"

text \<open>
  \<open>clearAll\<close>: \<open>Array(n)\<close> throws a \<open>RangeError\<close> unless \<open>0 \<le> n < 2^32\<close>; the updater
  then throws inside \<open>update\<close>, before anything is written.
\<close>

definition clearAll_updater :: "HarpoonState \<Rightarrow> js_error + HarpoonState" where
  "clearAll_updater state =
     (if maxSlots state < 0 \<or> maxSlots state > 4294967295 then Inl RangeError
      else Inr (state\<lparr>slots := replicate (nat (maxSlots state)) None\<rparr>))"

definition clearAll :: "Browser \<Rightarrow> unit promise" where
  "clearAll b =
     (case clearAll_updater (get_harpoon b) of
        Inl e \<Rightarrow> (Inl e, b)
      | Inr updated \<Rightarrow> (Inr (), set_harpoon updated b))"

text \<open>
  The updater that both repairs of \<open>jumpToSlot\<close> use: it writes the identifiers of the
  tab found, or of the tab created, into the slot if the slot is still occupied.
\<close>

definition jumpToSlot_updater :: "int \<Rightarrow> int option \<Rightarrow> int option \<Rightarrow> HarpoonState \<Rightarrow> HarpoonState" where
  "jumpToSlot_updater slotId tid wid state =
     (let newSlots = js_spread (slots state);
          existingSlot = js_get newSlots (slotId - 1);
          newSlots1 = (case existingSlot of
                         Some e \<Rightarrow> js_set newSlots (slotId - 1) (Some (e\<lparr>tabId := tid, windowId := wid\<rparr>))
                       | None \<Rightarrow> newSlots)
      in state\<lparr>slots := fst newSlots1\<rparr>)"

text \<open>
  \<open>jumpToSlot\<close>, in the order of the source: empty slot; the stored tab id; the URL;
  reopening; failure.
\<close>

definition jumpToSlot :: "int \<Rightarrow> Browser \<Rightarrow> bool \<times> Browser" where
  "jumpToSlot slotId b =
     (let state = getHarpoonState b
      in case js_get (js_spread (slots state)) (slotId - 1) of
           None \<Rightarrow> (False, b)
         | Some slot \<Rightarrow>
             (case (if truthy_num (tabId slot) then getTabById (tabId slot) b else None) of
                Some tab \<Rightarrow> (True, switchToTab (tab_id tab) (Some (tab_windowId tab)) b)
              | None \<Rightarrow>
                  (let tabByUrl = findTabByUrl (url slot) b
                   in case (case tabByUrl of
                              Some t \<Rightarrow> if truthy_num (tab_id t) then Some t else None
                            | None \<Rightarrow> None) of
                        Some t \<Rightarrow>
                          (let b1 = update_harpoon
                                      (jumpToSlot_updater slotId (tab_id t) (Some (tab_windowId t))) b
                           in (True, switchToTab (tab_id t) (Some (tab_windowId t)) b1))
                      | None \<Rightarrow>
                          (if harpoonReopenClosed b then
                             (let (newTab, b1) = createTab (url slot) b;
                                  b2 = (if truthy_num (tab_id newTab)
                                        then update_harpoon
                                               (jumpToSlot_updater slotId (tab_id newTab)
                                                  (Some (tab_windowId newTab))) b1
                                        else b1)
                              in (True, b2))
                           else (False, b)))))"

definition swapSlots_updater :: "int \<Rightarrow> int \<Rightarrow> HarpoonState \<Rightarrow> HarpoonState" where
  "swapSlots_updater slotA slotB state =
     (let newSlots = js_spread (slots state);
          indexA = slotA - 1;
          indexB = slotB - 1;
          temp = js_get newSlots indexA;
          newSlots1 = js_set newSlots indexA (js_get newSlots indexB);
          newSlots2 = js_set newSlots1 indexB temp;
          newSlots3 = (case js_get newSlots2 indexA of
                         Some s \<Rightarrow> js_set newSlots2 indexA (Some (s\<lparr>slot_id := slotA\<rparr>))
                       | None \<Rightarrow> newSlots2);
          newSlots4 = (case js_get newSlots3 indexB of
                         Some s \<Rightarrow> js_set newSlots3 indexB (Some (s\<lparr>slot_id := slotB\<rparr>))
                       | None \<Rightarrow> newSlots3)
      in state\<lparr>slots := fst newSlots4\<rparr>)"

definition swapSlots :: "int \<Rightarrow> int \<Rightarrow> Browser \<Rightarrow> unit promise" where
  "swapSlots slotA slotB b = (Inr (), update_harpoon (swapSlots_updater slotA slotB) b)"

text \<open>\<open>newSlots.map((slot, index) => ...)\<close> of \<open>moveSlot\<close>, from position \<open>index\<close> on.\<close>

fun renumber :: "nat \<Rightarrow> HarpoonSlot option list \<Rightarrow> HarpoonSlot option list" where
  "renumber index [] = []"
| "renumber index (None # rest) = None # renumber (index + 1) rest"
| "renumber index (Some slot # rest) =
     Some (slot\<lparr>slot_id := int index + 1\<rparr>) # renumber (index + 1) rest"

definition moveSlot_updater :: "int \<Rightarrow> int \<Rightarrow> HarpoonState \<Rightarrow> HarpoonState" where
  "moveSlot_updater fromSlot toSlot state =
     (let newSlots = slots state;
          fromIndex = fromSlot - 1;
          toIndex = toSlot - 1;
          (removed, newSlots1) = splice_remove1 newSlots fromIndex;
          movedSlot = (case removed of [] \<Rightarrow> None | moved # _ \<Rightarrow> moved);
          newSlots2 = splice_insert newSlots1 toIndex movedSlot;
          updatedSlots = renumber 0 newSlots2
      in state\<lparr>slots := updatedSlots\<rparr>)"

definition moveSlot :: "int \<Rightarrow> int \<Rightarrow> Browser \<Rightarrow> unit promise" where
  "moveSlot fromSlot toSlot b =
     (if fromSlot = toSlot then (Inr (), b)
      else (Inr (), update_harpoon (moveSlot_updater fromSlot toSlot) b))"

text \<open>\<open>getSlotForUrl\<close>: the first position whose slot has the URL, counted from 1.\<close>

fun getSlotForUrl_loop :: "string \<Rightarrow> HarpoonSlot option list \<Rightarrow> int \<Rightarrow> int option" where
  "getSlotForUrl_loop u [] i = None"
| "getSlotForUrl_loop u (slot # rest) i =
     (if map_option url slot = Some u then Some (i + 1)
      else getSlotForUrl_loop u rest (i + 1))"

definition getSlotForUrl :: "string \<Rightarrow> Browser \<Rightarrow> int option" where
  "getSlotForUrl u b = getSlotForUrl_loop u (slots (getHarpoonState b)) 0"

text \<open>
  The loop of \<open>syncWithTabs\<close> over the slots: the slots afterwards, and whether
  \<open>needsUpdate\<close> was set for one of them. The loop only reads from the browser.
\<close>

fun syncWithTabs_loop :: "Browser \<Rightarrow> HarpoonSlot option list \<Rightarrow> HarpoonSlot option list \<times> bool" where
  "syncWithTabs_loop b [] = ([], False)"
| "syncWithTabs_loop b (None # rest) =
     (case syncWithTabs_loop b rest of (rest', needsUpdate) \<Rightarrow> (None # rest', needsUpdate))"
| "syncWithTabs_loop b (Some slot # rest) =
     (case syncWithTabs_loop b rest of (rest', needsUpdate) \<Rightarrow>
        (if truthy_num (tabId slot) then
           (case getTabById (tabId slot) b of
              Some tab \<Rightarrow> (Some slot # rest', needsUpdate)
            | None \<Rightarrow>
                (case findTabByUrl (url slot) b of
                   Some tabByUrl \<Rightarrow>
                     (if truthy_num (tab_id tabByUrl)
                      then (Some (slot\<lparr>tabId := tab_id tabByUrl,
                                        windowId := Some (tab_windowId tabByUrl)\<rparr>) # rest',
                            True)
                      else (Some slot # rest', needsUpdate))
                 | None \<Rightarrow> (Some slot # rest', needsUpdate)))
         else (Some slot # rest', needsUpdate)))"

definition syncWithTabs :: "Browser \<Rightarrow> unit promise" where
  "syncWithTabs b =
     (let state = getHarpoonState b
      in case syncWithTabs_loop b (slots state) of (newSlots, needsUpdate) \<Rightarrow>
           (if needsUpdate
            then (Inr (), update_harpoon (\<lambda>state. state\<lparr>slots := newSlots\<rparr>) b)
            else (Inr (), b)))"


subsection \<open>Sequences of operations, and what is observed\<close>

text \<open>
  The operations of the module that write the registry, and a change of the open tabs
  between two of them (tabs opened, closed or navigated by the user).
\<close>

datatype registry_op =
    MarkToSlot int "int option"
  | MarkToNextAvailable
  | RemoveFromSlot int
  | RemoveByUrl string
  | SwapSlots int int
  | MoveSlot int int
  | ClearAll
  | SyncWithTabs
  | JumpToSlot int
  | SetMaxSlots int
  | TabsChanged "Tab list" "Tab option"

fun apply_op :: "registry_op \<Rightarrow> Browser \<Rightarrow> Browser" where
  "apply_op (MarkToSlot slotId tabIdArg) b = snd (markToSlot slotId tabIdArg b)"
| "apply_op MarkToNextAvailable b = snd (markToNextAvailable b)"
| "apply_op (RemoveFromSlot slotId) b = snd (removeFromSlot slotId b)"
| "apply_op (RemoveByUrl u) b = snd (removeByUrl u b)"
| "apply_op (SwapSlots slotA slotB) b = snd (swapSlots slotA slotB b)"
| "apply_op (MoveSlot fromSlot toSlot) b = snd (moveSlot fromSlot toSlot b)"
| "apply_op ClearAll b = snd (clearAll b)"
| "apply_op SyncWithTabs b = snd (syncWithTabs b)"
| "apply_op (JumpToSlot slotId) b = snd (jumpToSlot slotId b)"
| "apply_op (SetMaxSlots n) b = snd (setMaxSlots n b)"
| "apply_op (TabsChanged ts a) b = b\<lparr>tabs := ts, activeTab := a\<rparr>"

fun run :: "registry_op list \<Rightarrow> Browser \<Rightarrow> Browser" where
  "run [] b = b"
| "run (op # ops) b = run ops (apply_op op b)"

text \<open>
  The invariant of the registry: every occupied position of the array, counted from
  \<open>k\<close>, holds a record whose \<open>id\<close> is its position plus 1.
\<close>

fun slot_ids_from :: "nat \<Rightarrow> HarpoonSlot option list \<Rightarrow> bool" where
  "slot_ids_from k [] = True"
| "slot_ids_from k (None # rest) = slot_ids_from (k + 1) rest"
| "slot_ids_from k (Some slot # rest) = (slot_id slot = int k + 1 \<and> slot_ids_from (k + 1) rest)"

definition slot_ids_ok :: "HarpoonState \<Rightarrow> bool" where
  "slot_ids_ok state = slot_ids_from 0 (slots state)"

text \<open>The record at slot number \<open>slotId\<close> of a state, as \<open>state.slots[slotId - 1]\<close> reads it.\<close>

definition slot_at :: "HarpoonState \<Rightarrow> int \<Rightarrow> HarpoonSlot option" where
  "slot_at state slotId = js_get (js_spread (slots state)) (slotId - 1)"

text \<open>The calls made between a browser \<open>b\<close> and a later browser \<open>b'\<close>.\<close>

definition new_calls :: "Browser \<Rightarrow> Browser \<Rightarrow> browser_call list" where
  "new_calls b b' = drop (length (calls b)) (calls b')"

text \<open>The tabs activated and the URLs opened by a list of calls, in order.\<close>

fun activations :: "browser_call list \<Rightarrow> int option list" where
  "activations [] = []"
| "activations (TabsUpdateActive tid # cs) = tid # activations cs"
| "activations (_ # cs) = activations cs"

fun creations :: "browser_call list \<Rightarrow> string list" where
  "creations [] = []"
| "creations (TabsCreate u # cs) = u # creations cs"
| "creations (_ # cs) = creations cs"

text \<open>
  The tab that the second step of \<open>jumpToSlot\<close> finds for a slot, and the tab that its
  third step finds: the first open tab with the slot's URL, if that tab has an id.
\<close>

definition tab_of_handle :: "HarpoonSlot \<Rightarrow> Browser \<Rightarrow> Tab option" where
  "tab_of_handle slot b = (if truthy_num (tabId slot) then getTabById (tabId slot) b else None)"

definition tab_of_url :: "HarpoonSlot \<Rightarrow> Browser \<Rightarrow> Tab option" where
  "tab_of_url slot b =
     (case findTabByUrl (url slot) b of
        Some t \<Rightarrow> if truthy_num (tab_id t) then Some t else None
      | None \<Rightarrow> None)"

text \<open>
  Every open tab has an id, as the tabs that \<open>chrome.tabs.query\<close> and \<open>chrome.tabs.get\<close>
  return do.
\<close>

definition tabs_have_ids :: "Browser \<Rightarrow> bool" where
  "tabs_have_ids b = list_all (\<lambda>t. truthy_num (tab_id t)) (tabs b)"


text \<open>
  The tab that \<open>markToSlot\<close> resolves from its optional argument, and the targets that
  it must refuse: no tab, a tab with no id or no URL, a tab whose URL begins with
  \<open>chrome://\<close> or \<open>chrome-extension://\<close>.
\<close>

definition mark_target :: "int option \<Rightarrow> Browser \<Rightarrow> Tab option" where
  "mark_target tabIdArg b =
     (case tabIdArg of Some i \<Rightarrow> getTabById (Some i) b | None \<Rightarrow> getActiveTab b)"

definition invalid_target :: "Tab option \<Rightarrow> bool" where
  "invalid_target target =
     (case target of
        None \<Rightarrow> True
      | Some t \<Rightarrow>
          tab_id t = None \<or> tab_url t = None \<or>
          (case tab_url t of
             Some u \<Rightarrow> startsWith u ''chrome://'' \<or> startsWith u ''chrome-extension://''
           | None \<Rightarrow> False))"

subsection \<open>Example values\<close>

text \<open>A new installation: nothing stored, the default settings, no tab open yet.\<close>

definition new_installation :: Browser where
  "new_installation =
     \<lparr>tabs = [], activeTab = None, nextTabId = 100, currentWindowId = 1,
      stored_harpoon = None, harpoonReopenClosed = True, calls = []\<rparr>"

definition page_tab :: "int option \<Rightarrow> string \<Rightarrow> Tab" where
  "page_tab i u =
     \<lparr>tab_id = i, tab_url = Some u, tab_title = Some ''Page'', tab_favIconUrl = None,
      tab_windowId = 1\<rparr>"

definition page_slot :: "int \<Rightarrow> int option \<Rightarrow> string \<Rightarrow> HarpoonSlot" where
  "page_slot n i u =
     \<lparr>slot_id = n, tabId = i, url = u, title = ''Page'', favicon = None, windowId = Some 1\<rparr>"

text \<open>
  The browser after tab 7, open at \<open>https://a.test\<close>, has been marked to slot 1 of a new
  installation.
\<close>

definition after_mark :: Browser where
  "after_mark =
     run [TabsChanged [page_tab (Some 7) ''https://a.test''] None, MarkToSlot 1 (Some 7)]
       new_installation"

text \<open>The same some time later, when the open tabs are \<open>ts\<close>.\<close>

definition later_with_tabs :: "Tab list \<Rightarrow> Browser" where
  "later_with_tabs ts = apply_op (TabsChanged ts None) after_mark"


section \<open>The matcher: how sequences are compared\<close>

lemma zip_all_eq_iff:
  "length a \<le> length b \<Longrightarrow>
   list_all (\<lambda>(k, k'). f k = f k') (zip a b) \<longleftrightarrow> prefix (map f a) (map f b)"
proof (induction a arbitrary: b)
  case Nil
  then show ?case by simp
next
  case (Cons x a)
  then show ?case by (cases b) auto
qed

lemma prefix_same_length: "prefix xs ys \<Longrightarrow> length xs = length ys \<Longrightarrow> xs = ys"
  by (auto simp: prefix_def)

lemma sequencesMatch_iff:
  "sequencesMatch a b \<longleftrightarrow> map toLowerCase a = map toLowerCase b"
proof (cases "length a = length b")
  case True
  then have "list_all (\<lambda>(k, k'). toLowerCase k = toLowerCase k') (zip a b)
             \<longleftrightarrow> prefix (map toLowerCase a) (map toLowerCase b)"
    by (simp add: zip_all_eq_iff)
  moreover have "prefix (map toLowerCase a) (map toLowerCase b)
             \<longleftrightarrow> map toLowerCase a = map toLowerCase b"
    using True prefix_same_length [of "map toLowerCase a" "map toLowerCase b"] by auto
  ultimately show ?thesis using True by (simp add: sequencesMatch_def)
next
  case False
  then show ?thesis by (auto simp: sequencesMatch_def dest: map_eq_imp_length_eq)
qed

lemma isPartialMatch_iff:
  "isPartialMatch kb cur \<longleftrightarrow> strict_prefix (map toLowerCase cur) (map toLowerCase kb)"
proof (cases "length cur < length kb")
  case True
  then have "list_all (\<lambda>(k, k'). toLowerCase k = toLowerCase k') (zip cur kb)
             \<longleftrightarrow> prefix (map toLowerCase cur) (map toLowerCase kb)"
    by (simp add: zip_all_eq_iff)
  moreover have "map toLowerCase cur \<noteq> map toLowerCase kb"
    using True by (metis length_map less_irrefl)
  ultimately show ?thesis using True by (simp add: isPartialMatch_def strict_prefix_def)
next
  case False
  then have "\<not> strict_prefix (map toLowerCase cur) (map toLowerCase kb)"
    by (metis length_map prefix_length_less)
  with False show ?thesis by (simp add: isPartialMatch_def)
qed

lemma findMatch_loop_char:
  "findMatch_loop kbs cur hp =
     (if list_ex (\<lambda>kb. sequencesMatch (sequence kb) cur) kbs then exact
      else if hp \<or> list_ex (\<lambda>kb. isPartialMatch (sequence kb) cur) kbs then partial
      else none)"
  by (induction kbs arbitrary: hp) auto

lemma keydown_fields:
  "code (keydown c k) = c" "key (keydown c k) = k"
  "\<not> isInputElement (keydown c k)" "timeStamp (keydown c k) = 0"
  by (simp_all add: keydown_def isInputElement_def toLowerCase_def lowerChar_def isUpperChar_def)

lemma getKeyName_Space: "getKeyName (keydown ''Space'' k) = Some ''Space''"
  by (simp add: getKeyName_def keydown_fields)

lemma getKeyName_letters:
  "getKeyName (keydown ''KeyH'' ''h'') = Some ''h''"
  "getKeyName (keydown ''KeyA'' ''a'') = Some ''a''"
  "getKeyName (keydown ''KeyG'' ''g'') = Some ''g''"
  "getKeyName (keydown ''KeyZ'' ''z'') = Some ''z''"
  by (simp_all add: getKeyName_def keydown_fields isAlnumChar_def isLowerChar_def
        toLowerCase_def lowerChar_def isUpperChar_def)

section \<open>The matcher: keys that are not for it\<close>

text \<open>
  C7. A key event that arrives while the buffer is empty and whose normalized key is not
  the leader token \<open>Space\<close> (also when it has no normalized key at all) is not consumed:
  \<open>handleKeyDown\<close> returns \<open>false\<close>, calls neither \<open>preventDefault\<close> nor
  \<open>stopPropagation\<close> nor a callback, and leaves the manager, and so the empty buffer,
  as it was.
\<close>

theorem idle_non_leader_key_ignored:
  assumes "currentSequence m = []" and "getKeyName ev \<noteq> Some ''Space''"
  shows "handleKeyDown ev m = (False, [], m)"
  using assms by (auto simp: handleKeyDown_def split: option.splits)

theorem idle_non_leader_key_ignored_witness:
  "currentSequence (newKeybindManager DEFAULT_KEYBINDS) = [] \<and>
   getKeyName (keydown ''KeyA'' ''a'') \<noteq> Some ''Space'' \<and>
   handleKeyDown (keydown ''KeyA'' ''a'') (newKeybindManager DEFAULT_KEYBINDS)
     = (False, [], newKeybindManager DEFAULT_KEYBINDS)"
proof -
  have h1: "currentSequence (newKeybindManager DEFAULT_KEYBINDS) = []"
    by (simp add: newKeybindManager_def)
  have h2: "getKeyName (keydown ''KeyA'' ''a'') \<noteq> Some ''Space''"
    by (simp add: getKeyName_letters)
  show ?thesis using idle_non_leader_key_ignored [OF h1 h2] h1 h2 by simp
qed

text \<open>
  C10. A keydown whose key has no normalized name, that is, whose \<open>code\<close> is not
  \<open>Space\<close>, whose \<open>key\<close> is not \<open>Escape\<close> and is not a single character of
  \<open>[a-zA-Z0-9]\<close>, is ignored in every state of the manager, also in the middle of a
  sequence: \<open>handleKeyDown\<close> returns \<open>false\<close>, has no effect, and leaves the buffer and
  the pending timer as they were.
\<close>

theorem unnamed_key_leaves_sequence_untouched:
  assumes "code ev \<noteq> ''Space''" and "key ev \<noteq> ''Escape''"
    and "\<not> (length (key ev) = 1 \<and> list_ex isAlnumChar (key ev))"
  shows "getKeyName ev = None \<and> handleKeyDown ev m = (False, [], m)"
proof -
  have "getKeyName ev = None"
    using assms unfolding getKeyName_def by simp
  then show ?thesis by (simp add: handleKeyDown_def)
qed

theorem unnamed_key_leaves_sequence_untouched_witness:
  "handleKeyDown (keydown ''ShiftLeft'' ''Shift'')
     ((newKeybindManager DEFAULT_KEYBINDS)
        \<lparr>currentSequence := [''Space'', ''h''], sequenceTimeout := Some 1000\<rparr>)
   = (False, [],
      (newKeybindManager DEFAULT_KEYBINDS)
        \<lparr>currentSequence := [''Space'', ''h''], sequenceTimeout := Some 1000\<rparr>)"
proof -
  have h1: "code (keydown ''ShiftLeft'' ''Shift'') \<noteq> ''Space''"
    and h2: "key (keydown ''ShiftLeft'' ''Shift'') \<noteq> ''Escape''"
    and h3: "\<not> (length (key (keydown ''ShiftLeft'' ''Shift'')) = 1 \<and>
                 list_ex isAlnumChar (key (keydown ''ShiftLeft'' ''Shift'')))"
    by (simp_all add: keydown_fields)
  show ?thesis using unnamed_key_leaves_sequence_untouched [OF h1 h2 h3] by simp
qed

section \<open>The matcher: dead ends\<close>

text \<open>
  C8. Take a keystroke that the matcher processes (the matcher is enabled, the target is
  not a text field, the key has a normalized name \<open>k\<close>) and for which the buffer with
  \<open>k\<close> appended neither equals any binding's sequence nor is a strict prefix of one,
  compared case-insensitively. Then \<open>handleKeyDown\<close> returns \<open>false\<close>, emits no action,
  does not suppress the default handling, and the buffer is empty afterwards.
\<close>

theorem dead_end_resets_and_falls_through:
  assumes "enabled m" and "\<not> isInputElement ev" and "getKeyName ev = Some k"
    and "list_all (\<lambda>kb. map toLowerCase (sequence kb) \<noteq> map toLowerCase (currentSequence m @ [k]) \<and>
                         \<not> ci_strict_prefix (currentSequence m @ [k]) (sequence kb))
           (keybinds m)"
  shows "case handleKeyDown ev m of (consumed, fx, m') \<Rightarrow>
           consumed = False \<and> actions_of fx = [] \<and> \<not> suppressed fx \<and>
           currentSequence m' = []"
proof -
  have "findMatch_loop (keybinds m) (currentSequence m @ [k]) False = none"
    using assms(4)
    by (auto simp: findMatch_loop_char list_all_iff list_ex_iff sequencesMatch_iff
          isPartialMatch_iff ci_strict_prefix_def)
  then show ?thesis
    using assms(1-3)
    by (auto simp: handleKeyDown_def findMatch_def resetTimeout_def resetSequence_def
          suppressed_def Let_def)
qed

theorem dead_end_resets_and_falls_through_witness:
  "(case handleKeyDown (keydown ''KeyZ'' ''z'')
          ((newKeybindManager DEFAULT_KEYBINDS)
             \<lparr>currentSequence := [''Space'', ''h''], sequenceTimeout := Some 1000\<rparr>) of
      (consumed, fx, m') \<Rightarrow>
        consumed = False \<and> actions_of fx = [] \<and> \<not> suppressed fx \<and> currentSequence m' = [])"
proof -
  let ?m = "(newKeybindManager DEFAULT_KEYBINDS)
              \<lparr>currentSequence := [''Space'', ''h''], sequenceTimeout := Some 1000\<rparr>"
  have h1: "enabled ?m" by (simp add: newKeybindManager_def)
  have h2: "\<not> isInputElement (keydown ''KeyZ'' ''z'')" by (simp add: keydown_fields)
  have h3: "getKeyName (keydown ''KeyZ'' ''z'') = Some ''z''" by (simp add: getKeyName_letters)
  have h4: "list_all (\<lambda>kb. map toLowerCase (sequence kb) \<noteq> map toLowerCase (currentSequence ?m @ [''z'']) \<and>
                         \<not> ci_strict_prefix (currentSequence ?m @ [''z'']) (sequence kb))
              (keybinds ?m)"
    by code_simp
  show ?thesis using dead_end_resets_and_falls_through [OF h1 h2 h3 h4] .
qed

section \<open>The matcher: complete sequences\<close>












text \<open>
  Why the sequences must also differ: of two bindings with the same sequence, the
  first in the table wins, so feeding the sequence of the second emits the action of
  the first.
\<close>

lemma feed_duplicate_sequence_first_wins:
  "strict_prefix_free
     [\<lparr>sequence = [''Space'', ''h''], description = ''Add'', action = harpoonAdd\<rparr>,
      \<lparr>sequence = [''Space'', ''h''], description = ''List'', action = harpoonList\<rparr>] \<and>
   (case feed [keydown ''Space'' '' '', keydown ''KeyH'' ''h'']
           (newKeybindManager
              [\<lparr>sequence = [''Space'', ''h''], description = ''Add'', action = harpoonAdd\<rparr>,
               \<lparr>sequence = [''Space'', ''h''], description = ''List'', action = harpoonList\<rparr>]) of
      (cs, fx, m') \<Rightarrow> actions_of fx = [harpoonAdd])"
  by (simp add: getKeyName_Space getKeyName_letters handleKeyDown_def newKeybindManager_def
        keydown_fields findMatch_def sequencesMatch_def isPartialMatch_def resetTimeout_def
        resetSequence_def ci_strict_prefix_def toLowerCase_def lowerChar_def isUpperChar_def)

section \<open>The registry: arrays and storage\<close>

lemma js_get_js_set: "js_get (js_set a i v) j = (if j = i then v else js_get a j)"
  by (auto simp: js_get_def js_set_def nth_append nth_list_update split: option.splits)

lemma js_get_js_spread:
  "js_get (js_spread xs) j = (if 0 \<le> j \<and> nat j < length xs then xs ! nat j else None)"
  by (simp add: js_get_def js_spread_def)

lemma fst_js_spread: "fst (js_spread xs) = xs"
  by (simp add: js_spread_def)

lemma length_js_set:
  "length (fst (js_set a i v)) = (if 0 \<le> i then max (length (fst a)) (nat i + 1) else length (fst a))"
  by (auto simp: js_set_def)

lemma js_get_js_spread_fst: "0 \<le> j \<Longrightarrow> js_get (js_spread (fst a)) j = js_get a j"
  by (simp add: js_get_def js_spread_def)

lemma get_harpoon_set_harpoon: "get_harpoon (set_harpoon v b) = v"
  by (simp add: get_harpoon_def set_harpoon_def)

lemma get_harpoon_update_harpoon: "get_harpoon (update_harpoon f b) = f (get_harpoon b)"
  by (simp add: update_harpoon_def Let_def get_harpoon_set_harpoon)

lemma get_harpoon_switchToTab: "get_harpoon (switchToTab tid wid b) = get_harpoon b"
  by (simp add: switchToTab_def get_harpoon_def Let_def split: option.splits)

lemma get_harpoon_createTab: "get_harpoon (snd (createTab u b)) = get_harpoon b"
  by (simp add: createTab_def get_harpoon_def Let_def)

lemma tabs_update_harpoon: "tabs (update_harpoon f b) = tabs b"
  by (simp add: update_harpoon_def set_harpoon_def Let_def)

lemma calls_update_harpoon:
  "calls (update_harpoon f b) = calls b @ [StorageSetHarpoon (f (get_harpoon b))]"
  by (simp add: update_harpoon_def set_harpoon_def Let_def)

section \<open>The registry: targets that cannot be marked\<close>

text \<open>
  C9. When the tab that \<open>markToSlot\<close> resolves (the tab with the given id, or the active
  tab) does not exist, has no id or no URL, or has a URL that begins with \<open>chrome://\<close>
  or \<open>chrome-extension://\<close>, \<open>markToSlot\<close> returns \<open>null\<close> and leaves the browser as it
  was: the stored registry is unchanged and no call, in particular no write to storage,
  has been made.
\<close>

theorem markToSlot_invalid_target_fails:
  assumes "invalid_target (mark_target tabIdArg b)"
  shows "markToSlot slotId tabIdArg b = (None, b)"
proof (cases "mark_target tabIdArg b")
  case None
  then show ?thesis
    by (simp add: markToSlot_def mark_target_def Let_def)
next
  case (Some t)
  with assms have "tab_id t = None \<or> tab_url t = None \<or>
      (\<exists>u. tab_url t = Some u \<and> (startsWith u ''chrome://'' \<or> startsWith u ''chrome-extension://''))"
    by (auto simp: invalid_target_def split: option.splits)
  with Some show ?thesis
    by (auto simp: markToSlot_def mark_target_def Let_def truthy_num_def split: option.splits)
qed

theorem markToSlot_invalid_target_fails_witness:
  "invalid_target (mark_target None
     (new_installation\<lparr>activeTab := Some (page_tab (Some 3) ''chrome://extensions'')\<rparr>)) \<and>
   markToSlot 1 None
     (new_installation\<lparr>activeTab := Some (page_tab (Some 3) ''chrome://extensions'')\<rparr>)
   = (None, new_installation\<lparr>activeTab := Some (page_tab (Some 3) ''chrome://extensions'')\<rparr>)"
proof -
  have h: "invalid_target (mark_target None
     (new_installation\<lparr>activeTab := Some (page_tab (Some 3) ''chrome://extensions'')\<rparr>))"
    by code_simp
  show ?thesis using markToSlot_invalid_target_fails [OF h] h by simp
qed

section \<open>The registry: the invariant of slot ids\<close>

lemma slot_ids_from_iff:
  "slot_ids_from k xs \<longleftrightarrow>
     (\<forall>i < length xs. \<forall>s. xs ! i = Some s \<longrightarrow> slot_id s = int (k + i) + 1)"
proof (induction k xs rule: slot_ids_from.induct)
  case (1 k)
  then show ?case by simp
next
  case (2 k rest)
  then show ?case by (auto simp: nth_Cons' less_Suc_eq_0_disj)
next
  case (3 k slot rest)
  then show ?case by (auto simp: nth_Cons' less_Suc_eq_0_disj)
qed

lemma slot_ids_js:
  "slot_ids_from 0 (fst a) \<longleftrightarrow> (\<forall>j s. 0 \<le> j \<longrightarrow> js_get a j = Some s \<longrightarrow> slot_id s = j + 1)"
proof
  assume L: "slot_ids_from 0 (fst a)"
  show "\<forall>j s. 0 \<le> j \<longrightarrow> js_get a j = Some s \<longrightarrow> slot_id s = j + 1"
  proof (intro allI impI)
    fix j s assume j: "0 \<le> j" and g: "js_get a j = Some s"
    then have "nat j < length (fst a)" and "fst a ! nat j = Some s"
      by (auto simp: js_get_def split: if_splits)
    with L have "slot_id s = int (0 + nat j) + 1" by (simp add: slot_ids_from_iff)
    with j show "slot_id s = j + 1" by simp
  qed
next
  assume R: "\<forall>j s. 0 \<le> j \<longrightarrow> js_get a j = Some s \<longrightarrow> slot_id s = j + 1"
  show "slot_ids_from 0 (fst a)"
    unfolding slot_ids_from_iff
  proof (intro allI impI)
    fix i s assume "i < length (fst a)" and "fst a ! i = Some s"
    then have "js_get a (int i) = Some s" by (simp add: js_get_def)
    with R have "slot_id s = int i + 1" by (metis of_nat_0_le_iff)
    then show "slot_id s = int (0 + i) + 1" by simp
  qed
qed

lemma slot_ids_ok_js:
  "slot_ids_ok state \<longleftrightarrow>
     (\<forall>j s. 0 \<le> j \<longrightarrow> js_get (js_spread (slots state)) j = Some s \<longrightarrow> slot_id s = j + 1)"
  using slot_ids_js [of "js_spread (slots state)"] by (simp add: slot_ids_ok_def fst_js_spread)

lemma swapSlots_updater_ok:
  assumes "slot_ids_ok state"
  shows "slot_ids_ok (swapSlots_updater slotA slotB state)"
proof -
  have inv: "\<And>j s. 0 \<le> j \<Longrightarrow> js_get (js_spread (slots state)) j = Some s \<Longrightarrow> slot_id s = j + 1"
    using assms by (simp add: slot_ids_ok_js)
  show ?thesis
    unfolding slot_ids_ok_def swapSlots_updater_def Let_def
    by (auto simp: slot_ids_js js_get_js_set dest: inv split: option.splits if_splits)
qed

lemma markToSlot_updater_ok:
  assumes "slot_ids_ok state" and "slot_id slot = slotId"
  shows "slot_ids_ok (markToSlot_updater slotId slot state)"
proof -
  have inv: "\<And>j s. 0 \<le> j \<Longrightarrow> js_get (js_spread (slots state)) j = Some s \<Longrightarrow> slot_id s = j + 1"
    using assms(1) by (simp add: slot_ids_ok_js)
  have pad: "js_get (fst (js_spread (slots state)) @ replicate n None, snd (js_spread (slots state))) j
             = js_get (js_spread (slots state)) j" for n j
    by (auto simp: js_get_def js_spread_def nth_append)
  show ?thesis
    unfolding slot_ids_ok_def markToSlot_updater_def Let_def
    using assms(2)
    by (auto simp: slot_ids_js js_get_js_set pad dest: inv split: if_splits)
qed

lemma removeFromSlot_updater_ok:
  assumes "slot_ids_ok state"
  shows "slot_ids_ok (removeFromSlot_updater slotId state)"
proof -
  have inv: "\<And>j s. 0 \<le> j \<Longrightarrow> js_get (js_spread (slots state)) j = Some s \<Longrightarrow> slot_id s = j + 1"
    using assms by (simp add: slot_ids_ok_js)
  show ?thesis
    unfolding slot_ids_ok_def removeFromSlot_updater_def Let_def
    by (auto simp: slot_ids_js js_get_js_set dest: inv split: if_splits)
qed

lemma jumpToSlot_updater_ok:
  assumes "slot_ids_ok state"
  shows "slot_ids_ok (jumpToSlot_updater slotId tid wid state)"
proof -
  have inv: "\<And>j s. 0 \<le> j \<Longrightarrow> js_get (js_spread (slots state)) j = Some s \<Longrightarrow> slot_id s = j + 1"
    using assms by (simp add: slot_ids_ok_js)
  have inv': "0 < slotId \<Longrightarrow> js_get (js_spread (slots state)) (slotId - 1) = Some s \<Longrightarrow>
              slot_id s = slotId" for s
    using inv [of "slotId - 1" s] by simp
  show ?thesis
    unfolding slot_ids_ok_def jumpToSlot_updater_def Let_def
    by (auto simp: slot_ids_js js_get_js_set inv' dest: inv split: option.splits if_splits)
qed

lemma removeByUrl_updater_ok:
  assumes "slot_ids_ok state"
  shows "slot_ids_ok (removeByUrl_updater u state)"
  using assms
  by (auto simp: slot_ids_ok_def removeByUrl_updater_def slot_ids_from_iff split: option.splits if_splits)

lemma setMaxSlots_updater_ok:
  assumes "slot_ids_ok state"
  shows "slot_ids_ok (setMaxSlots_updater n state)"
  using assms
  by (auto simp: slot_ids_ok_def setMaxSlots_updater_def slot_ids_from_iff)

lemma slot_ids_from_replicate: "slot_ids_from k (replicate n None)"
  by (simp add: slot_ids_from_iff)

lemma slot_ids_from_renumber: "slot_ids_from k (renumber k xs)"
  by (induction k xs rule: renumber.induct) simp_all

lemma moveSlot_updater_ok: "slot_ids_ok (moveSlot_updater fromSlot toSlot state)"
  by (simp add: slot_ids_ok_def moveSlot_updater_def Let_def slot_ids_from_renumber split: prod.splits)

lemma syncWithTabs_loop_ok:
  "slot_ids_from k xs \<Longrightarrow> slot_ids_from k (fst (syncWithTabs_loop b xs))"
  by (induction k xs rule: slot_ids_from.induct) (auto split: prod.splits option.splits)

lemma DEFAULT_HARPOON_STATE_ok: "slot_ids_ok DEFAULT_HARPOON_STATE"
  by (simp add: slot_ids_ok_def DEFAULT_HARPOON_STATE_def)

lemma markToSlot_ok:
  assumes "slot_ids_ok (get_harpoon b)"
  shows "slot_ids_ok (get_harpoon (snd (markToSlot slotId tabIdArg b)))"
  using assms
  by (auto simp: markToSlot_def Let_def get_harpoon_update_harpoon
        intro!: markToSlot_updater_ok split: option.splits)

lemma markToNextAvailable_loop_ok:
  assumes "slot_ids_ok (get_harpoon b)"
  shows "slot_ids_ok (get_harpoon (snd (markToNextAvailable_loop state i b)))"
  using assms
proof (induction state i b rule: markToNextAvailable_loop.induct)
  case (1 state i b)
  then show ?case
    by (subst markToNextAvailable_loop.simps) (auto intro: markToSlot_ok)
qed

lemma jumpToSlot_ok:
  assumes "slot_ids_ok (get_harpoon b)"
  shows "slot_ids_ok (get_harpoon (snd (jumpToSlot slotId b)))"
  using assms
  by (auto simp: jumpToSlot_def Let_def getHarpoonState_def get_harpoon_update_harpoon
        get_harpoon_switchToTab get_harpoon_createTab
        intro!: jumpToSlot_updater_ok split: option.splits prod.splits if_splits
        dest: arg_cong [where f = "\<lambda>p. get_harpoon (snd p)"])

lemma apply_op_ok:
  assumes "slot_ids_ok (get_harpoon b)"
  shows "slot_ids_ok (get_harpoon (apply_op op b))"
proof (cases op)
  case (MarkToSlot slotId tabIdArg)
  then show ?thesis using assms by (simp add: markToSlot_ok)
next
  case MarkToNextAvailable
  then show ?thesis
    using assms by (simp add: markToNextAvailable_def markToNextAvailable_loop_ok)
next
  case (RemoveFromSlot slotId)
  then show ?thesis
    using assms
    by (simp add: removeFromSlot_def get_harpoon_update_harpoon removeFromSlot_updater_ok)
next
  case (RemoveByUrl u)
  then show ?thesis
    using assms by (simp add: removeByUrl_def get_harpoon_update_harpoon removeByUrl_updater_ok)
next
  case (SwapSlots slotA slotB)
  then show ?thesis
    using assms by (simp add: swapSlots_def get_harpoon_update_harpoon swapSlots_updater_ok)
next
  case (MoveSlot fromSlot toSlot)
  then show ?thesis
    using assms by (simp add: moveSlot_def get_harpoon_update_harpoon moveSlot_updater_ok)
next
  case ClearAll
  then show ?thesis
    using assms
    by (auto simp: clearAll_def clearAll_updater_def get_harpoon_set_harpoon slot_ids_ok_def
          slot_ids_from_replicate)
next
  case SyncWithTabs
  have "slot_ids_from 0 (fst (syncWithTabs_loop b (slots (get_harpoon b))))"
    using assms by (simp add: slot_ids_ok_def syncWithTabs_loop_ok)
  with SyncWithTabs show ?thesis
    using assms
    by (auto simp: syncWithTabs_def getHarpoonState_def Let_def get_harpoon_update_harpoon
          slot_ids_ok_def split: prod.splits)
next
  case (JumpToSlot slotId)
  then show ?thesis using assms by (simp add: jumpToSlot_ok)
next
  case (SetMaxSlots n)
  then show ?thesis
    using assms
    by (simp add: setMaxSlots_def Let_def get_harpoon_update_harpoon setMaxSlots_updater_ok)
next
  case (TabsChanged ts a)
  then show ?thesis using assms by (simp add: get_harpoon_def)
qed

lemma run_ok:
  "slot_ids_ok (get_harpoon b) \<Longrightarrow> slot_ids_ok (get_harpoon (run ops b))"
  by (induction ops arbitrary: b) (simp_all add: apply_op_ok)

text \<open>
  C2. Start from a browser in which nothing is stored, so that the registry read is the
  default one, all empty. After every sequence of operations of the module
  (\<open>markToSlot\<close>, \<open>removeFromSlot\<close>, \<open>removeByUrl\<close>, \<open>swapSlots\<close>, \<open>moveSlot\<close>,
  \<open>clearAll\<close>, \<open>syncWithTabs\<close>, and also \<open>markToNextAvailable\<close>, \<open>jumpToSlot\<close> and
  \<open>setMaxSlots\<close>), with any arguments and with any changes of the open tabs in between,
  and so after each operation of the sequence, every non-empty record of the stored
  array has an \<open>id\<close> equal to its position plus 1.
\<close>

theorem registry_ops_keep_slot_ids:
  assumes "stored_harpoon b = None"
  shows "slot_ids_ok (get_harpoon (run (take n ops) b))"
proof -
  have "slot_ids_ok (get_harpoon b)"
    using assms by (simp add: get_harpoon_def DEFAULT_HARPOON_STATE_ok)
  then show ?thesis by (rule run_ok)
qed

text \<open>
  A concrete sequence: mark tab 7 to slot 1, swap slots 1 and 7, move slot 7 to
  slot 2. The record ends at position 1 of an array of length 7 with \<open>id\<close> 2.
\<close>

theorem registry_ops_keep_slot_ids_witness:
  "stored_harpoon new_installation = None \<and>
   slot_ids_ok (get_harpoon (run (take 4
      [TabsChanged [page_tab (Some 7) ''https://a.test''] None,
       MarkToSlot 1 (Some 7), SwapSlots 1 7, MoveSlot 7 2]) new_installation)) \<and>
   slots (get_harpoon (run
      [TabsChanged [page_tab (Some 7) ''https://a.test''] None,
       MarkToSlot 1 (Some 7), SwapSlots 1 7, MoveSlot 7 2] new_installation))
     = [None, Some (page_slot 2 (Some 7) ''https://a.test''), None, None, None, None, None]"
proof -
  have h: "stored_harpoon new_installation = None"
    by (simp add: new_installation_def)
  have "slots (get_harpoon (run
      [TabsChanged [page_tab (Some 7) ''https://a.test''] None,
       MarkToSlot 1 (Some 7), SwapSlots 1 7, MoveSlot 7 2] new_installation))
     = [None, Some (page_slot 2 (Some 7) ''https://a.test''), None, None, None, None, None]"
    by code_simp
  then show ?thesis
    using registry_ops_keep_slot_ids [OF h, of 4
      "[TabsChanged [page_tab (Some 7) ''https://a.test''] None,
        MarkToSlot 1 (Some 7), SwapSlots 1 7, MoveSlot 7 2]"] h
    by simp
qed

section \<open>The registry: swapping twice\<close>

lemma swapSlots_updater_get:
  assumes "1 \<le> slotA" and "1 \<le> slotB" and "0 \<le> j"
  shows "js_get (js_spread (slots (swapSlots_updater slotA slotB state))) j =
           (if j = slotB - 1
              then map_option (\<lambda>s. s\<lparr>slot_id := slotB\<rparr>) (js_get (js_spread (slots state)) (slotA - 1))
            else if j = slotA - 1
              then map_option (\<lambda>s. s\<lparr>slot_id := slotA\<rparr>) (js_get (js_spread (slots state)) (slotB - 1))
            else js_get (js_spread (slots state)) j)"
  using assms
  unfolding swapSlots_updater_def Let_def
  by (auto simp: js_get_js_spread_fst js_get_js_set split: option.splits)

lemma swapSlots_updater_length:
  assumes "1 \<le> slotA" and "slotA \<le> int (length (slots state))"
    and "1 \<le> slotB" and "slotB \<le> int (length (slots state))"
  shows "length (slots (swapSlots_updater slotA slotB state)) = length (slots state)"
  using assms
  unfolding swapSlots_updater_def Let_def
  by (auto simp: length_js_set fst_js_spread split: option.splits)

lemma swapSlots_updater_rest:
  "swapSlots_updater slotA slotB state
     = state\<lparr>slots := slots (swapSlots_updater slotA slotB state)\<rparr>"
  by (simp add: swapSlots_updater_def Let_def)

lemma swapSlots_updater_twice:
  assumes ok: "slot_ids_ok state"
    and a: "1 \<le> slotA" "slotA \<le> int (length (slots state))"
    and b: "1 \<le> slotB" "slotB \<le> int (length (slots state))"
  shows "swapSlots_updater slotA slotB (swapSlots_updater slotA slotB state) = state"
proof -
  let ?s1 = "swapSlots_updater slotA slotB state"
  let ?s2 = "swapSlots_updater slotA slotB ?s1"
  let ?g = "js_get (js_spread (slots state))"
  have inv: "\<And>j s. 0 \<le> j \<Longrightarrow> ?g j = Some s \<Longrightarrow> slot_id s = j + 1"
    using ok by (simp add: slot_ids_ok_js)
  have fixA: "map_option (\<lambda>s. s\<lparr>slot_id := slotA\<rparr>) (?g (slotA - 1)) = ?g (slotA - 1)"
    using inv [of "slotA - 1"] a(1) by (cases "?g (slotA - 1)") auto
  have fixB: "map_option (\<lambda>s. s\<lparr>slot_id := slotB\<rparr>) (?g (slotB - 1)) = ?g (slotB - 1)"
    using inv [of "slotB - 1"] b(1) by (cases "?g (slotB - 1)") auto
  have len1: "length (slots ?s1) = length (slots state)"
    using a b by (rule swapSlots_updater_length)
  have len2: "length (slots ?s2) = length (slots state)"
    using swapSlots_updater_length [of slotA ?s1 slotB] a b len1 by simp
  have get2: "js_get (js_spread (slots ?s2)) j = ?g j" if "0 \<le> j" for j
  proof -
    have comp: "map_option (\<lambda>s. s\<lparr>slot_id := n\<rparr>) (map_option (\<lambda>s. s\<lparr>slot_id := k\<rparr>) x)
                = map_option (\<lambda>s. s\<lparr>slot_id := n\<rparr>) x"
      for n k and x :: "HarpoonSlot option"
      by (cases x) simp_all
    show ?thesis
      using that a(1) b(1) fixA fixB
      by (simp add: swapSlots_updater_get comp)
  qed
  have "slots ?s2 = slots state"
  proof (rule nth_equalityI)
    show "length (slots ?s2) = length (slots state)" by (rule len2)
  next
    fix i assume i: "i < length (slots ?s2)"
    have "slots ?s2 ! i = js_get (js_spread (slots ?s2)) (int i)"
      using i by (simp add: js_get_js_spread)
    also have "\<dots> = ?g (int i)" by (rule get2) simp
    also have "\<dots> = slots state ! i"
      using i len2 by (simp add: js_get_js_spread)
    finally show "slots ?s2 ! i = slots state ! i" .
  qed
  moreover have "?s2 = ?s1\<lparr>slots := slots ?s2\<rparr>"
    by (rule swapSlots_updater_rest)
  moreover have "?s1 = state\<lparr>slots := slots ?s1\<rparr>"
    by (rule swapSlots_updater_rest)
  ultimately have "?s2 = state\<lparr>slots := slots ?s1\<rparr>\<lparr>slots := slots state\<rparr>"
    by simp
  then show ?thesis by simp
qed

text \<open>
  C6, as it holds. Take a registry in which every non-empty record's \<open>id\<close> is its
  position plus 1, and two slot numbers between 1 and the length of the stored array.
  Then \<open>swapSlots(a, b)\<close> performed twice in succession restores the registry exactly:
  the state read back after the second swap is the state before the first.
\<close>

theorem swapSlots_twice_restores:
  assumes "slot_ids_ok (get_harpoon br)"
    and "1 \<le> a" and "a \<le> int (length (slots (get_harpoon br)))"
    and "1 \<le> b" and "b \<le> int (length (slots (get_harpoon br)))"
  shows "get_harpoon (snd (swapSlots a b (snd (swapSlots a b br)))) = get_harpoon br"
  using assms by (simp add: swapSlots_def get_harpoon_update_harpoon swapSlots_updater_twice)

text \<open>
  A concrete registry: slot 1 occupied, slot 3 empty, both inside the array of
  length 5.
\<close>

theorem swapSlots_twice_restores_witness:
  "slot_ids_ok (get_harpoon after_mark) \<and>
   int (length (slots (get_harpoon after_mark))) = 5 \<and>
   slots (get_harpoon (snd (swapSlots 1 3 after_mark)))
     = [None, None, Some (page_slot 3 (Some 7) ''https://a.test''), None, None] \<and>
   get_harpoon (snd (swapSlots 1 3 (snd (swapSlots 1 3 after_mark)))) = get_harpoon after_mark"
proof -
  have h1: "slot_ids_ok (get_harpoon after_mark)" by code_simp
  have h2: "int (length (slots (get_harpoon after_mark))) = 5" by code_simp
  have h3: "slots (get_harpoon (snd (swapSlots 1 3 after_mark)))
     = [None, None, Some (page_slot 3 (Some 7) ''https://a.test''), None, None]"
    by code_simp
  have "get_harpoon (snd (swapSlots 1 3 (snd (swapSlots 1 3 after_mark)))) = get_harpoon after_mark"
    using h2 by (intro swapSlots_twice_restores [OF h1]) simp_all
  with h1 h2 h3 show ?thesis by simp
qed

text \<open>
  For slot numbers up to \<open>maxSlots\<close> the statement fails. After \<open>setMaxSlots(10)\<close> the
  slot numbers 1 to 10 are in range,
  while the stored array still has length 5. Swapping slots 7 and 1 twice brings the
  record back to slot 1, but leaves an array of length 7: the state is not restored.
\<close>

theorem swapSlots_twice_grows_array_counterexample:
  "get_harpoon (snd (setMaxSlots 10 after_mark))
     = \<lparr>slots = [Some (page_slot 1 (Some 7) ''https://a.test''), None, None, None, None],
        maxSlots = 10\<rparr> \<and>
   get_harpoon (snd (swapSlots 7 1 (snd (swapSlots 7 1 (snd (setMaxSlots 10 after_mark))))))
     = \<lparr>slots = [Some (page_slot 1 (Some 7) ''https://a.test''), None, None, None, None, None, None],
        maxSlots = 10\<rparr> \<and>
   get_harpoon (snd (swapSlots 7 1 (snd (swapSlots 7 1 (snd (setMaxSlots 10 after_mark))))))
     \<noteq> get_harpoon (snd (setMaxSlots 10 after_mark))"
  by code_simp

text \<open>
  Why the invariant is needed as well: a stored record whose \<open>id\<close> is not its position plus 1
  comes back from two swaps with its \<open>id\<close> rewritten.
\<close>

lemma swapSlots_twice_rewrites_wrong_id:
  "get_harpoon (snd (swapSlots 1 2 (snd (swapSlots 1 2
      (new_installation
         \<lparr>stored_harpoon :=
            Some \<lparr>slots = [Some (page_slot 9 (Some 7) ''https://a.test''), None], maxSlots = 5\<rparr>\<rparr>)))))
     = \<lparr>slots = [Some (page_slot 1 (Some 7) ''https://a.test''), None], maxSlots = 5\<rparr>"
  by code_simp

section \<open>The registry: reconciliation\<close>

lemma getTabById_tabs: "tabs b = tabs b' \<Longrightarrow> getTabById i b = getTabById i b'"
  by (cases i) (simp_all add: getTabById_def)

lemma findTabByUrl_tabs: "tabs b = tabs b' \<Longrightarrow> findTabByUrl u b = findTabByUrl u b'"
  by (simp add: findTabByUrl_def)

lemma syncWithTabs_loop_tabs:
  assumes "tabs b = tabs b'"
  shows "syncWithTabs_loop b xs = syncWithTabs_loop b' xs"
proof (induction xs)
  case Nil
  then show ?case by simp
next
  case (Cons x xs)
  show ?case
  proof (cases x)
    case None
    with Cons show ?thesis by simp
  next
    case (Some slot)
    with Cons show ?thesis
      by (auto simp: getTabById_tabs [OF assms] findTabByUrl_tabs [OF assms]
            split: prod.splits option.splits)
  qed
qed

lemma found_tab_resolves:
  assumes "findTabByUrl u b = Some t" and "truthy_num (tab_id t)"
  shows "\<exists>tab. getTabById (tab_id t) b = Some tab"
proof -
  from assms(2) obtain n where n: "tab_id t = Some n"
    by (cases "tab_id t") (simp_all add: truthy_num_def)
  from assms(1) have "t \<in> set (tabs b)"
    by (auto simp: findTabByUrl_def find_Some_iff)
  with n have "find (\<lambda>t'. tab_id t' = Some n) (tabs b) \<noteq> None"
    by (auto simp: find_None_iff)
  with n show ?thesis by (auto simp: getTabById_def)
qed

lemma syncWithTabs_loop_stable:
  "syncWithTabs_loop b (fst (syncWithTabs_loop b xs)) = (fst (syncWithTabs_loop b xs), False)"
proof (induction b xs rule: syncWithTabs_loop.induct)
  case (1 b)
  then show ?case by simp
next
  case (2 b rest)
  obtain r n where rest: "syncWithTabs_loop b rest = (r, n)"
    by (cases "syncWithTabs_loop b rest")
  with "2.IH" have "syncWithTabs_loop b r = (r, False)" by simp
  with rest show ?case by simp
next
  case (3 b slot rest)
  obtain r n where rest: "syncWithTabs_loop b rest = (r, n)"
    by (cases "syncWithTabs_loop b rest")
  with "3.IH" have ih: "syncWithTabs_loop b r = (r, False)" by simp
  show ?case
  proof (cases "truthy_num (tabId slot)")
    case False
    with rest ih show ?thesis by simp
  next
    case True
    show ?thesis
    proof (cases "getTabById (tabId slot) b")
      case (Some tab)
      with True rest ih show ?thesis by simp
    next
      case None
      show ?thesis
      proof (cases "findTabByUrl (url slot) b")
        case nf: None
        with None True rest ih show ?thesis by simp
      next
        case (Some t)
        show ?thesis
        proof (cases "truthy_num (tab_id t)")
          case f: False
          with Some None True rest ih show ?thesis by simp
        next
          case t: True
          from found_tab_resolves [OF Some t] obtain tab
            where "getTabById (tab_id t) b = Some tab" by blast
          with t Some None True rest ih show ?thesis by simp
        qed
      qed
    qed
  qed
qed

lemma syncWithTabs_loop_keeps_unresolved:
  assumes "i < length xs" and "xs ! i = Some s" and "findTabByUrl (url s) b = None"
  shows "fst (syncWithTabs_loop b xs) ! i = Some s"
  using assms
proof (induction b xs arbitrary: i rule: syncWithTabs_loop.induct)
  case (1 b)
  then show ?case by simp
next
  case (2 b rest)
  then show ?case by (cases i) (auto split: prod.splits)
next
  case (3 b slot rest)
  then show ?case by (cases i) (auto split: prod.splits option.splits)
qed

lemma syncWithTabs_loop_unchanged:
  "snd (syncWithTabs_loop b xs) = False \<Longrightarrow> fst (syncWithTabs_loop b xs) = xs"
  by (induction b xs rule: syncWithTabs_loop.induct)
     (auto split: prod.splits option.splits if_splits)

lemma syncWithTabs_slots:
  "slots (get_harpoon (snd (syncWithTabs b))) = fst (syncWithTabs_loop b (slots (get_harpoon b)))"
proof -
  obtain newSlots needsUpdate
    where loop: "syncWithTabs_loop b (slots (get_harpoon b)) = (newSlots, needsUpdate)"
    by (cases "syncWithTabs_loop b (slots (get_harpoon b))")
  show ?thesis
  proof (cases needsUpdate)
    case True
    with loop show ?thesis
      by (simp add: syncWithTabs_def getHarpoonState_def Let_def get_harpoon_update_harpoon)
  next
    case False
    with loop have "newSlots = slots (get_harpoon b)"
      using syncWithTabs_loop_unchanged [of b "slots (get_harpoon b)"] by simp
    with loop False show ?thesis
      by (simp add: syncWithTabs_def getHarpoonState_def Let_def)
  qed
qed

lemma syncWithTabs_twice:
  "syncWithTabs (snd (syncWithTabs b)) = (Inr (), snd (syncWithTabs b))"
proof -
  let ?b1 = "snd (syncWithTabs b)"
  let ?new = "fst (syncWithTabs_loop b (slots (get_harpoon b)))"
  have "tabs ?b1 = tabs b"
    by (simp add: syncWithTabs_def getHarpoonState_def Let_def tabs_update_harpoon
          split: prod.splits)
  then have "syncWithTabs_loop ?b1 ?new = syncWithTabs_loop b ?new"
    by (rule syncWithTabs_loop_tabs)
  then have "syncWithTabs_loop ?b1 (slots (get_harpoon ?b1)) = (?new, False)"
    by (simp add: syncWithTabs_slots syncWithTabs_loop_stable)
  then show ?thesis
    by (simp add: syncWithTabs_def [of ?b1] getHarpoonState_def Let_def)
qed

text \<open>
  C5. \<open>syncWithTabs\<close> is idempotent: with the open tabs unchanged, a second call in
  succession writes nothing and leaves the browser, and so the registry, exactly as the
  first call left it. And a non-empty slot whose \<open>tabId\<close> resolves to no open tab and
  whose URL matches no open tab is left as it was by a call, with its stale \<open>tabId\<close>.
\<close>

theorem syncWithTabs_idempotent:
  "snd (syncWithTabs (snd (syncWithTabs b))) = snd (syncWithTabs b) \<and>
   get_harpoon (snd (syncWithTabs (snd (syncWithTabs b)))) = get_harpoon (snd (syncWithTabs b)) \<and>
   (\<forall>i s. i < length (slots (get_harpoon b)) \<and> slots (get_harpoon b) ! i = Some s \<and>
          getTabById (tabId s) b = None \<and> findTabByUrl (url s) b = None \<longrightarrow>
          slots (get_harpoon (snd (syncWithTabs b))) ! i = Some s \<and>
          map_option tabId (slots (get_harpoon (snd (syncWithTabs b))) ! i) = Some (tabId s))"
proof -
  have "snd (syncWithTabs (snd (syncWithTabs b))) = snd (syncWithTabs b)"
    by (simp add: syncWithTabs_twice)
  moreover have "slots (get_harpoon (snd (syncWithTabs b))) ! i = Some s"
    if "i < length (slots (get_harpoon b))" "slots (get_harpoon b) ! i = Some s"
       "findTabByUrl (url s) b = None" for i s
    using that by (simp add: syncWithTabs_slots syncWithTabs_loop_keeps_unresolved)
  ultimately show ?thesis by simp
qed

text \<open>
  Concrete browsers. With tab 7 closed and a tab 9 open at the same URL, the first
  call repairs slot 1 and the second changes nothing. With no tab open, slot 1 keeps
  its stale tab id 7.
\<close>

theorem syncWithTabs_idempotent_witness:
  "slots (get_harpoon (snd (syncWithTabs (later_with_tabs [page_tab (Some 9) ''https://a.test'']))))
     = [Some (page_slot 1 (Some 9) ''https://a.test''), None, None, None, None] \<and>
   get_harpoon (snd (syncWithTabs
      (snd (syncWithTabs (later_with_tabs [page_tab (Some 9) ''https://a.test''])))))
     = get_harpoon (snd (syncWithTabs (later_with_tabs [page_tab (Some 9) ''https://a.test'']))) \<and>
   slots (get_harpoon (later_with_tabs [])) ! 0 = Some (page_slot 1 (Some 7) ''https://a.test'') \<and>
   getTabById (tabId (page_slot 1 (Some 7) ''https://a.test'')) (later_with_tabs []) = None \<and>
   findTabByUrl (url (page_slot 1 (Some 7) ''https://a.test'')) (later_with_tabs []) = None \<and>
   map_option tabId (slots (get_harpoon (snd (syncWithTabs (later_with_tabs [])))) ! 0)
     = Some (Some 7)"
proof -
  let ?slot = "page_slot 1 (Some 7) ''https://a.test''"
  have h0: "slots (get_harpoon (snd (syncWithTabs (later_with_tabs [page_tab (Some 9) ''https://a.test'']))))
     = [Some (page_slot 1 (Some 9) ''https://a.test''), None, None, None, None]"
    by code_simp
  have h1: "0 < length (slots (get_harpoon (later_with_tabs [])))" by code_simp
  have h2: "slots (get_harpoon (later_with_tabs [])) ! 0 = Some ?slot" by code_simp
  have h3: "getTabById (tabId ?slot) (later_with_tabs []) = None" by code_simp
  have h4: "findTabByUrl (url ?slot) (later_with_tabs []) = None" by code_simp
  have h5: "tabId ?slot = Some 7" by (simp add: page_slot_def)
  from syncWithTabs_idempotent [of "later_with_tabs []"] h1 h2 h3 h4
  have "map_option tabId (slots (get_harpoon (snd (syncWithTabs (later_with_tabs [])))) ! 0)
          = Some (tabId ?slot)"
    by blast
  then show ?thesis
    using syncWithTabs_idempotent [of "later_with_tabs [page_tab (Some 9) ''https://a.test'']"]
      h0 h2 h3 h4 h5
    by simp
qed

section \<open>The registry: jumping\<close>

lemma calls_switchToTab:
  "\<exists>focus. calls (switchToTab tid wid b) = calls b @ TabsUpdateActive tid # focus \<and>
           activations focus = [] \<and> creations focus = []"
  by (auto simp: switchToTab_def Let_def split: option.splits)

lemma new_calls_switchToTab:
  assumes "calls b1 = calls b @ cs"
  shows "activations (new_calls b (switchToTab tid wid b1)) = activations cs @ [tid]"
    and "creations (new_calls b (switchToTab tid wid b1)) = creations cs"
proof -
  obtain focus where f: "calls (switchToTab tid wid b1) = calls b1 @ TabsUpdateActive tid # focus"
    "activations focus = []" "creations focus = []"
    using calls_switchToTab [of tid wid b1] by blast
  have act: "activations (xs @ ys) = activations xs @ activations ys" for xs ys
    by (induction xs rule: activations.induct) simp_all
  have cre: "creations (xs @ ys) = creations xs @ creations ys" for xs ys
    by (induction xs rule: creations.induct) simp_all
  show "activations (new_calls b (switchToTab tid wid b1)) = activations cs @ [tid]"
    using f assms by (simp add: new_calls_def act)
  show "creations (new_calls b (switchToTab tid wid b1)) = creations cs"
    using f assms by (simp add: new_calls_def cre)
qed

lemma tab_of_handle_id:
  "tab_of_handle slot b = Some tab \<Longrightarrow> tab_id tab = tabId slot"
  by (cases "tabId slot")
     (auto simp: tab_of_handle_def getTabById_def find_Some_iff split: if_splits)

lemma jumpToSlot_empty:
  assumes "slot_at (get_harpoon b) slotId = None"
  shows "jumpToSlot slotId b = (False, b)"
  using assms by (simp add: jumpToSlot_def slot_at_def getHarpoonState_def Let_def)

lemma jumpToSlot_by_handle:
  assumes "slot_at (get_harpoon b) slotId = Some slot" and "tab_of_handle slot b = Some tab"
  shows "jumpToSlot slotId b = (True, switchToTab (tab_id tab) (Some (tab_windowId tab)) b)"
  using assms
  by (simp add: jumpToSlot_def slot_at_def getHarpoonState_def Let_def tab_of_handle_def)

lemma jumpToSlot_by_url:
  assumes "slot_at (get_harpoon b) slotId = Some slot" and "tab_of_handle slot b = None"
    and "tab_of_url slot b = Some t"
  shows "jumpToSlot slotId b =
           (True, switchToTab (tab_id t) (Some (tab_windowId t))
                    (update_harpoon (jumpToSlot_updater slotId (tab_id t) (Some (tab_windowId t))) b))"
  using assms
  by (simp add: jumpToSlot_def slot_at_def getHarpoonState_def Let_def tab_of_handle_def
        tab_of_url_def)

lemma jumpToSlot_reopen:
  assumes "slot_at (get_harpoon b) slotId = Some slot" and "tab_of_handle slot b = None"
    and "tab_of_url slot b = None" and "harpoonReopenClosed b"
  shows "fst (jumpToSlot slotId b) = True"
    and "calls (snd (jumpToSlot slotId b)) = calls b @ [TabsCreate (url slot)]
         \<or> (\<exists>v. calls (snd (jumpToSlot slotId b))
                  = calls b @ [TabsCreate (url slot), StorageSetHarpoon v])"
  using assms
  by (auto simp: jumpToSlot_def slot_at_def getHarpoonState_def Let_def tab_of_handle_def
        tab_of_url_def createTab_def calls_update_harpoon split: prod.splits)

lemma jumpToSlot_unavailable:
  assumes "slot_at (get_harpoon b) slotId = Some slot" and "tab_of_handle slot b = None"
    and "tab_of_url slot b = None" and "\<not> harpoonReopenClosed b"
  shows "jumpToSlot slotId b = (False, b)"
  using assms
  by (simp add: jumpToSlot_def slot_at_def getHarpoonState_def Let_def tab_of_handle_def
        tab_of_url_def)

lemma jumpToSlot_updater_slots:
  assumes "slot_at state slotId = Some slot"
  shows "slots (jumpToSlot_updater slotId tid wid state)
           = (slots state)[nat (slotId - 1) := Some (slot\<lparr>tabId := tid, windowId := wid\<rparr>)]"
    and "slot_at (jumpToSlot_updater slotId tid wid state) slotId
           = Some (slot\<lparr>tabId := tid, windowId := wid\<rparr>)"
  using assms
  by (auto simp: jumpToSlot_updater_def slot_at_def js_get_def js_set_def js_spread_def Let_def
        split: if_splits)

lemma jumpToSlot_cases:
  fixes b :: Browser and slotId :: int
  defines "r \<equiv> jumpToSlot slotId b"
  defines "made \<equiv> new_calls b (snd (jumpToSlot slotId b))"
  shows
  "case slot_at (get_harpoon b) slotId of
      None \<Rightarrow> r = (False, b)
    | Some slot \<Rightarrow>
        (case tab_of_handle slot b of
           Some tab \<Rightarrow>
             fst r = True \<and> activations made = [tab_id tab] \<and> tab_id tab = tabId slot \<and>
             creations made = [] \<and> get_harpoon (snd r) = get_harpoon b
         | None \<Rightarrow>
             (case tab_of_url slot b of
                Some t \<Rightarrow>
                  fst r = True \<and> activations made = [tab_id t] \<and> creations made = [] \<and>
                  slot_at (get_harpoon (snd r)) slotId
                    = Some (slot\<lparr>tabId := tab_id t, windowId := Some (tab_windowId t)\<rparr>) \<and>
                  slots (get_harpoon (snd r))
                    = (slots (get_harpoon b))
                        [nat (slotId - 1) :=
                           Some (slot\<lparr>tabId := tab_id t, windowId := Some (tab_windowId t)\<rparr>)]
              | None \<Rightarrow>
                  (if harpoonReopenClosed b
                   then fst r = True \<and> creations made = [url slot] \<and> activations made = []
                   else r = (False, b))))"
proof (cases "slot_at (get_harpoon b) slotId")
  case None
  then show ?thesis by (simp add: r_def jumpToSlot_empty)
next
  case (Some slot)
  note slot = Some
  show ?thesis
  proof (cases "tab_of_handle slot b")
    case (Some tab)
    have "r = (True, switchToTab (tab_id tab) (Some (tab_windowId tab)) b)"
      unfolding r_def using slot Some by (rule jumpToSlot_by_handle)
    moreover have "activations (new_calls b (switchToTab (tab_id tab) (Some (tab_windowId tab)) b))
                     = [tab_id tab]"
      and "creations (new_calls b (switchToTab (tab_id tab) (Some (tab_windowId tab)) b)) = []"
      using new_calls_switchToTab [of b b "[]"] by simp_all
    ultimately show ?thesis
      using slot Some tab_of_handle_id [OF Some]
      by (simp add: made_def r_def get_harpoon_switchToTab)
  next
    case None
    note handle = None
    show ?thesis
    proof (cases "tab_of_url slot b")
      case (Some t)
      let ?upd = "jumpToSlot_updater slotId (tab_id t) (Some (tab_windowId t))"
      have rr: "r = (True, switchToTab (tab_id t) (Some (tab_windowId t)) (update_harpoon ?upd b))"
        unfolding r_def using slot handle Some by (rule jumpToSlot_by_url)
      have "activations (new_calls b (switchToTab (tab_id t) (Some (tab_windowId t))
               (update_harpoon ?upd b))) = [tab_id t]"
        and "creations (new_calls b (switchToTab (tab_id t) (Some (tab_windowId t))
               (update_harpoon ?upd b))) = []"
        using new_calls_switchToTab [of "update_harpoon ?upd b" b
                "[StorageSetHarpoon (?upd (get_harpoon b))]"]
        by (simp_all add: calls_update_harpoon)
      then show ?thesis
        using slot handle Some rr jumpToSlot_updater_slots [OF slot]
        by (simp add: made_def r_def get_harpoon_switchToTab get_harpoon_update_harpoon)
    next
      case None
      show ?thesis
      proof (cases "harpoonReopenClosed b")
        case True
        from jumpToSlot_reopen [OF slot handle None True]
        have "fst r = True" and "creations made = [url slot] \<and> activations made = []"
          by (auto simp: r_def made_def new_calls_def)
        then show ?thesis using slot handle None True by simp
      next
        case False
        then show ?thesis
          using slot handle None jumpToSlot_unavailable [OF slot handle None False]
          by (simp add: r_def)
      qed
    qed
  qed
qed

lemma tab_of_handle_with_ids:
  assumes "tabs_have_ids b"
  shows "tab_of_handle slot b = getTabById (tabId slot) b"
proof (cases "getTabById (tabId slot) b")
  case None
  then show ?thesis by (simp add: tab_of_handle_def)
next
  case (Some tab)
  then obtain n where n: "tabId slot = Some n" and f: "find (\<lambda>t. tab_id t = Some n) (tabs b) = Some tab"
    by (cases "tabId slot") (auto simp: getTabById_def)
  from f have "tab \<in> set (tabs b)" and "tab_id tab = Some n"
    by (auto simp: find_Some_iff)
  with assms have "truthy_num (Some n)"
    by (auto simp: tabs_have_ids_def list_all_iff)
  with n show ?thesis by (simp add: tab_of_handle_def)
qed

lemma tab_of_url_with_ids:
  assumes "tabs_have_ids b"
  shows "tab_of_url slot b = findTabByUrl (url slot) b"
proof (cases "findTabByUrl (url slot) b")
  case None
  then show ?thesis by (simp add: tab_of_url_def)
next
  case (Some t)
  then have "t \<in> set (tabs b)"
    by (auto simp: findTabByUrl_def find_Some_iff)
  with assms have "truthy_num (tab_id t)"
    by (auto simp: tabs_have_ids_def list_all_iff)
  with Some show ?thesis by (simp add: tab_of_url_def)
qed

lemma findTabByUrl_Some:
  "findTabByUrl u b = Some t \<Longrightarrow> t \<in> set (tabs b) \<and> tab_url t = Some u"
  by (auto simp: findTabByUrl_def find_Some_iff)

lemma findTabByUrl_None_iff:
  "findTabByUrl u b = None \<longleftrightarrow> \<not> list_ex (\<lambda>t. tab_url t = Some u) (tabs b)"
  by (auto simp: findTabByUrl_def find_None_iff list_ex_iff)

lemma getTabById_Some:
  "getTabById i b = Some tab \<Longrightarrow> tab \<in> set (tabs b) \<and> tab_id tab = i"
  by (cases i) (auto simp: getTabById_def find_Some_iff)

text \<open>
  C1, as it holds. Every open tab has an id. \<open>jumpToSlot(s)\<close> resolves in this fixed
  order. It fails, doing nothing, if slot \<open>s\<close> is empty. Else, if the stored \<open>tabId\<close>
  still resolves to an open tab, it activates that tab, succeeds and leaves the registry
  as it is. Else, if some open tab's URL equals the slot's URL, it writes the id and
  window id of the first such tab into the slot and into no other slot, activates that
  tab and succeeds. Else, only if \<open>harpoonReopenClosed\<close> is set, it creates a tab at the
  stored URL and succeeds; otherwise it fails, doing nothing. In particular, whenever an
  open tab shares the slot's URL, the jump succeeds, creates no tab and activates exactly
  one open tab: the tab of the stored \<open>tabId\<close> when that still resolves, whatever URL
  that tab shows by now, and a tab that shares the slot's URL otherwise.
\<close>

theorem jumpToSlot_resolution_order:
  fixes b :: Browser and slotId :: int
  defines "r \<equiv> jumpToSlot slotId b"
  defines "made \<equiv> new_calls b (snd (jumpToSlot slotId b))"
  assumes ids: "tabs_have_ids b"
  shows
    "(case slot_at (get_harpoon b) slotId of
        None \<Rightarrow> r = (False, b)
      | Some slot \<Rightarrow>
          (case getTabById (tabId slot) b of
             Some tab \<Rightarrow>
               fst r = True \<and> activations made = [tabId slot] \<and> tab_id tab = tabId slot \<and>
               creations made = [] \<and> get_harpoon (snd r) = get_harpoon b
           | None \<Rightarrow>
               (case findTabByUrl (url slot) b of
                  Some t \<Rightarrow>
                    fst r = True \<and> tab_url t = Some (url slot) \<and>
                    activations made = [tab_id t] \<and> creations made = [] \<and>
                    slot_at (get_harpoon (snd r)) slotId
                      = Some (slot\<lparr>tabId := tab_id t, windowId := Some (tab_windowId t)\<rparr>) \<and>
                    slots (get_harpoon (snd r))
                      = (slots (get_harpoon b))
                          [nat (slotId - 1) :=
                             Some (slot\<lparr>tabId := tab_id t, windowId := Some (tab_windowId t)\<rparr>)]
                | None \<Rightarrow>
                    (if harpoonReopenClosed b
                     then fst r = True \<and> creations made = [url slot] \<and> activations made = []
                     else r = (False, b))))) \<and>
     (\<forall>slot. slot_at (get_harpoon b) slotId = Some slot \<and>
             list_ex (\<lambda>t. tab_url t = Some (url slot)) (tabs b) \<longrightarrow>
             fst r = True \<and> creations made = [] \<and>
             list_ex (\<lambda>t. activations made = [tab_id t]) (tabs b) \<and>
             (case getTabById (tabId slot) b of
                Some tab \<Rightarrow> activations made = [tab_id tab]
              | None \<Rightarrow>
                  list_ex (\<lambda>t. tab_url t = Some (url slot) \<and> activations made = [tab_id t])
                    (tabs b)))"
proof -
  have chain:
    "case slot_at (get_harpoon b) slotId of
        None \<Rightarrow> r = (False, b)
      | Some slot \<Rightarrow>
          (case getTabById (tabId slot) b of
             Some tab \<Rightarrow>
               fst r = True \<and> activations made = [tabId slot] \<and> tab_id tab = tabId slot \<and>
               creations made = [] \<and> get_harpoon (snd r) = get_harpoon b
           | None \<Rightarrow>
               (case findTabByUrl (url slot) b of
                  Some t \<Rightarrow>
                    fst r = True \<and> tab_url t = Some (url slot) \<and>
                    activations made = [tab_id t] \<and> creations made = [] \<and>
                    slot_at (get_harpoon (snd r)) slotId
                      = Some (slot\<lparr>tabId := tab_id t, windowId := Some (tab_windowId t)\<rparr>) \<and>
                    slots (get_harpoon (snd r))
                      = (slots (get_harpoon b))
                          [nat (slotId - 1) :=
                             Some (slot\<lparr>tabId := tab_id t, windowId := Some (tab_windowId t)\<rparr>)]
                | None \<Rightarrow>
                    (if harpoonReopenClosed b
                     then fst r = True \<and> creations made = [url slot] \<and> activations made = []
                     else r = (False, b))))"
    using jumpToSlot_cases [where b = b and slotId = slotId]
    by (auto simp: r_def made_def tab_of_handle_with_ids [OF ids] tab_of_url_with_ids [OF ids]
          split: option.splits dest: findTabByUrl_Some)
  have part: "fst r = True \<and> creations made = [] \<and>
             list_ex (\<lambda>t. activations made = [tab_id t]) (tabs b) \<and>
             (case getTabById (tabId slot) b of
                Some tab \<Rightarrow> activations made = [tab_id tab]
              | None \<Rightarrow>
                  list_ex (\<lambda>t. tab_url t = Some (url slot) \<and> activations made = [tab_id t])
                    (tabs b))"
    if slot: "slot_at (get_harpoon b) slotId = Some slot"
      and shared: "list_ex (\<lambda>t. tab_url t = Some (url slot)) (tabs b)" for slot
  proof (cases "getTabById (tabId slot) b")
    case (Some tab)
    with chain slot have "fst r = True" "activations made = [tabId slot]"
      "tab_id tab = tabId slot" "creations made = []"
      by simp_all
    moreover from Some have "tab \<in> set (tabs b)" by (simp add: getTabById_Some)
    ultimately have "fst r = True" "creations made = []" "activations made = [tab_id tab]"
      "\<exists>t\<in>set (tabs b). activations made = [tab_id t]"
      by (simp_all, intro bexI [of _ tab], simp_all)
    then show ?thesis using Some by (simp add: list_ex_iff)
  next
    case None
    from shared obtain t where t: "findTabByUrl (url slot) b = Some t"
      by (cases "findTabByUrl (url slot) b") (auto simp: findTabByUrl_None_iff)
    with chain slot None have "fst r = True" "activations made = [tab_id t]"
      "creations made = []"
      by simp_all
    moreover from t have "t \<in> set (tabs b)" "tab_url t = Some (url slot)"
      by (simp_all add: findTabByUrl_Some)
    ultimately have "fst r = True" "creations made = []"
      "\<exists>t\<in>set (tabs b). activations made = [tab_id t]"
      "\<exists>t\<in>set (tabs b). tab_url t = Some (url slot) \<and> activations made = [tab_id t]"
      by (simp_all, (intro bexI [of _ t], simp_all)+)
    then show ?thesis using None by (simp add: list_ex_iff)
  qed
  from chain part show ?thesis by blast
qed

theorem jumpToSlot_resolution_order_witness:
  "tabs_have_ids (later_with_tabs [page_tab (Some 9) ''https://a.test'']) \<and>
   slot_at (get_harpoon (later_with_tabs [page_tab (Some 9) ''https://a.test''])) 1
     = Some (page_slot 1 (Some 7) ''https://a.test'') \<and>
   list_ex (\<lambda>t. tab_url t = Some (url (page_slot 1 (Some 7) ''https://a.test'')))
     (tabs (later_with_tabs [page_tab (Some 9) ''https://a.test''])) \<and>
   getTabById (tabId (page_slot 1 (Some 7) ''https://a.test''))
     (later_with_tabs [page_tab (Some 9) ''https://a.test'']) = None \<and>
   fst (jumpToSlot 1 (later_with_tabs [page_tab (Some 9) ''https://a.test''])) = True \<and>
   activations (new_calls (later_with_tabs [page_tab (Some 9) ''https://a.test''])
     (snd (jumpToSlot 1 (later_with_tabs [page_tab (Some 9) ''https://a.test''])))) = [Some 9] \<and>
   creations (new_calls (later_with_tabs [page_tab (Some 9) ''https://a.test''])
     (snd (jumpToSlot 1 (later_with_tabs [page_tab (Some 9) ''https://a.test''])))) = [] \<and>
   slot_at (get_harpoon (snd (jumpToSlot 1 (later_with_tabs [page_tab (Some 9) ''https://a.test''])))) 1
     = Some (page_slot 1 (Some 9) ''https://a.test'')"
proof -
  let ?b = "later_with_tabs [page_tab (Some 9) ''https://a.test'']"
  let ?slot = "page_slot 1 (Some 7) ''https://a.test''"
  have h0: "tabs_have_ids ?b" by code_simp
  have h1: "slot_at (get_harpoon ?b) 1 = Some ?slot" by code_simp
  have h2: "getTabById (tabId ?slot) ?b = None" by code_simp
  have h3: "findTabByUrl (url ?slot) ?b = Some (page_tab (Some 9) ''https://a.test'')" by code_simp
  have h4: "?slot\<lparr>tabId := tab_id (page_tab (Some 9) ''https://a.test''),
                   windowId := Some (tab_windowId (page_tab (Some 9) ''https://a.test''))\<rparr>
            = page_slot 1 (Some 9) ''https://a.test''"
    by (simp add: page_tab_def page_slot_def)
  have h5: "tab_id (page_tab (Some 9) ''https://a.test'') = Some 9"
    by (simp add: page_tab_def)
  have h6: "list_ex (\<lambda>t. tab_url t = Some (url ?slot)) (tabs ?b)" by code_simp
  show ?thesis
    using jumpToSlot_resolution_order [where b = ?b and slotId = 1, OF h0] h0 h1 h2 h3 h4 h5 h6
    by simp
qed

text \<open>
  When the stored tab id resolves, the statement that the tab sharing the slot's URL is
  the one activated fails. Slot 1 holds the URL \<open>https://a.test\<close> with the tab id 7;
  tab 7 is still open and shows \<open>https://b.test\<close> by now, and tab 8 is open at
  \<open>https://a.test\<close>. \<open>jumpToSlot(1)\<close> activates tab 7, not tab 8, and leaves the slot as
  it is.
\<close>

theorem jumpToSlot_activates_handle_not_url_tab_counterexample:
  "tabs_have_ids
     (later_with_tabs [page_tab (Some 7) ''https://b.test'', page_tab (Some 8) ''https://a.test'']) \<and>
   slot_at (get_harpoon
     (later_with_tabs [page_tab (Some 7) ''https://b.test'', page_tab (Some 8) ''https://a.test''])) 1
     = Some (page_slot 1 (Some 7) ''https://a.test'') \<and>
   filter (\<lambda>t. tab_url t = Some ''https://a.test'')
     (tabs (later_with_tabs
        [page_tab (Some 7) ''https://b.test'', page_tab (Some 8) ''https://a.test'']))
     = [page_tab (Some 8) ''https://a.test''] \<and>
   fst (jumpToSlot 1
     (later_with_tabs [page_tab (Some 7) ''https://b.test'', page_tab (Some 8) ''https://a.test'']))
     = True \<and>
   activations
     (new_calls
        (later_with_tabs [page_tab (Some 7) ''https://b.test'', page_tab (Some 8) ''https://a.test''])
        (snd (jumpToSlot 1
           (later_with_tabs [page_tab (Some 7) ''https://b.test'', page_tab (Some 8) ''https://a.test'']))))
     = [Some 7] \<and>
   slot_at (get_harpoon (snd (jumpToSlot 1
     (later_with_tabs [page_tab (Some 7) ''https://b.test'', page_tab (Some 8) ''https://a.test''])))) 1
     = Some (page_slot 1 (Some 7) ''https://a.test'')"
  by code_simp

section \<open>The registry: slot indices out of range\<close>







lemma length_renumber: "length (renumber k xs) = length xs"
  by (induction k xs rule: renumber.induct) simp_all










end
